theory Spec2Isabelle
  imports Complex_Main "HOL-Library.Char_ord" "HOL-Library.List_Lexorder" "HOL-Library.Multiset"
begin

section \<open>The relational store\<close>

text \<open>
  The user router works on a relational store through an object-relational mapper.
  A table is the list of its rows in the order the store yields them; the calls the
  router makes are \<open>findMany\<close>, \<open>findUnique\<close>, \<open>deleteMany\<close> and \<open>create\<close>, each
  with a \<open>where\<close> clause that is a predicate on rows.  Identifiers are the store's
  integers, amounts its signed big integers.
\<close>

record user =
  user_id :: int
  email :: string
  name :: "string option"

text \<open>
  Modelled from the spec: the Balance row, whose schema is not among the sources:
  the tuple (userId, friendId, currency, amount).
\<close>

record balance =
  userId :: int
  friendId :: int
  currency :: string
  amount :: int

text \<open>
  Modelled from the spec: the Expense row, whose schema is not among the sources: its
  id, the paying user, the currency, the amount, the soft-delete audit field, and the
  participant records it owns (user and share).  Keeping the participants with their
  expense is the foreign key of the ExpenseParticipant table: every participant row
  belongs to a stored expense.
\<close>

record expense =
  e_id :: string
  paidBy :: int
  e_currency :: string
  e_amount :: int
  deletedBy :: "int option"
  expenseParticipants :: "(int \<times> int) list"

text \<open>An ExpenseParticipant row, as getExpenseDetails builds one: expenseId, userId, amount.\<close>

record expenseParticipant =
  ep_expenseId :: string
  ep_userId :: int
  ep_amount :: int

text \<open>
  Modelled from the spec: the Group row, whose schema is not among the sources: a named
  collection of member users, matched on import by the id the external service gave it.
  A membership row is the GroupUser row getExpenseDetails reads (group and user).
\<close>

record group =
  g_id :: int
  g_name :: string
  splitwiseGroupId :: "int option"

record groupUser =
  gu_groupId :: int
  gu_userId :: int

text \<open>
  The store: its tables, the sequences that number new users and new groups, and the
  invitation mails handed to the mailer (address and name of the inviting user).
\<close>

record db =
  db_user :: "user list"
  user_seq :: int
  db_balance :: "balance list"
  db_expense :: "expense list"
  db_group :: "group list"
  group_seq :: int
  db_groupUser :: "groupUser list"
  outbox :: "(string \<times> string) list"

text \<open>The signed-in user of the request, \<open>ctx.session.user\<close>.\<close>

record session_user =
  su_id :: int
  su_name :: "string option"
  su_email :: "string option"

datatype trpc_code = UNAUTHORIZED | BAD_REQUEST | NOT_FOUND

datatype TRPCError = TRPCError trpc_code string

text \<open>The ExpenseParticipant table: the participant records of the stored expenses.\<close>

definition db_expenseParticipant :: "db \<Rightarrow> expenseParticipant list" where
  "db_expenseParticipant d =
     concat (map (\<lambda>e. map (\<lambda>(u, x). \<lparr>ep_expenseId = e_id e, ep_userId = u, ep_amount = x\<rparr>)
                         (expenseParticipants e))
               (db_expense d))"

definition findMany :: "('r \<Rightarrow> bool) \<Rightarrow> 'r list \<Rightarrow> 'r list" where
  "findMany wh tbl = filter wh tbl"

definition findUnique :: "('r \<Rightarrow> bool) \<Rightarrow> 'r list \<Rightarrow> 'r option" where
  "findUnique wh tbl = find wh tbl"

definition deleteMany :: "('r \<Rightarrow> bool) \<Rightarrow> 'r list \<Rightarrow> 'r list" where
  "deleteMany wh tbl = filter (\<lambda>r. \<not> wh r) tbl"

section \<open>Queries and friend deletion of the user router\<close>

text \<open>
  A procedure takes the session user, its input and the store, and returns its result
  (or the error it throws) together with the store it leaves behind.
\<close>

definition getBalancesWithFriend ::
  "session_user \<Rightarrow> int \<Rightarrow> db \<Rightarrow> (TRPCError + balance list) \<times> db" where
  "getBalancesWithFriend su input_friendId d =
     (let balances = findMany (\<lambda>b. userId b = su_id su \<and> friendId b = input_friendId
                                   \<and> amount b \<noteq> 0) (db_balance d)
      in (Inr balances, d))"

definition deleteFriend ::
  "session_user \<Rightarrow> int \<Rightarrow> db \<Rightarrow> (TRPCError + unit) \<times> db" where
  "deleteFriend su input_friendId d =
     (let friendBalances = findMany (\<lambda>b. userId b = su_id su \<and> friendId b = input_friendId
                                         \<and> amount b \<noteq> 0) (db_balance d)
      in if 0 < length friendBalances
         then (Inl (TRPCError BAD_REQUEST ''You have outstanding balances with this friend''), d)
         else
           let d1 = d\<lparr>db_balance := deleteMany (\<lambda>b. userId b = input_friendId
                                                   \<and> friendId b = su_id su) (db_balance d)\<rparr>;
               d2 = d1\<lparr>db_balance := deleteMany (\<lambda>b. friendId b = input_friendId
                                                    \<and> userId b = su_id su) (db_balance d1)\<rparr>
           in (Inr (), d2))"

text \<open>
  The mirrored-pair invariant of the balance table: every row (A, B, c) with amount x
  has a row (B, A, c) with amount -x.
\<close>

definition mirror :: "balance \<Rightarrow> balance" where
  "mirror b = \<lparr>userId = friendId b, friendId = userId b, currency = currency b,
              amount = - amount b\<rparr>"

definition mirrored :: "balance list \<Rightarrow> bool" where
  "mirrored tbl = list_all (\<lambda>b. mirror b \<in> set tbl) tbl"

text \<open>A row is between users u and f when it is the row of one of them about the other.\<close>

definition between :: "int \<Rightarrow> int \<Rightarrow> balance \<Rightarrow> bool" where
  "between u f b = (userId b = u \<and> friendId b = f \<or> userId b = f \<and> friendId b = u)"

section \<open>Inviting a friend\<close>

text \<open>
  \<open>s.split(sep)\<close> of JavaScript for a one-character separator: the pieces of \<open>s\<close>
  between the occurrences of \<open>sep\<close>; there is always at least one piece.
\<close>

fun js_split :: "char \<Rightarrow> string \<Rightarrow> string list" where
  "js_split sep [] = [[]]"
| "js_split sep (c # cs) =
     (if c = sep then [] # js_split sep cs
      else (case js_split sep cs of
              [] \<Rightarrow> [[c]]
            | w # ws \<Rightarrow> (c # w) # ws))"

text \<open>Reading \<open>xs[i]\<close>: undefined (None) beyond the end.\<close>

definition js_index :: "'a list \<Rightarrow> nat \<Rightarrow> 'a option" where
  "js_index xs i = (if i < length xs then Some (xs ! i) else None)"

text \<open>\<open>db.user.create\<close>: the new row takes the next number of the sequence.\<close>

definition user_create :: "string \<Rightarrow> string option \<Rightarrow> db \<Rightarrow> user \<times> db" where
  "user_create e n d =
     (let u = \<lparr>user_id = user_seq d, email = e, name = n\<rparr>
      in (u, d\<lparr>db_user := db_user d @ [u], user_seq := user_seq d + 1\<rparr>))"

definition inviteFriend ::
  "session_user \<Rightarrow> string \<Rightarrow> bool option \<Rightarrow> db \<Rightarrow> (TRPCError + user) \<times> db" where
  "inviteFriend su input_email input_sendInviteEmail d =
     (case findUnique (\<lambda>u. email u = input_email) (db_user d) of
        Some friend \<Rightarrow> (Inr friend, d)
      | None \<Rightarrow>
          (case user_create input_email (js_index (js_split CHR ''@'' input_email) 0) d of
             (usr, d1) \<Rightarrow>
               (Inr usr,
                if input_sendInviteEmail = Some True
                then d1\<lparr>outbox := outbox d1 @
                         [(input_email,
                           (case su_name su of
                              Some n \<Rightarrow> n
                            | None \<Rightarrow> (case su_email su of Some e \<Rightarrow> e | None \<Rightarrow> [])))]\<rparr>
                else d1)))"

section \<open>The balance ledger\<close>

text \<open>
  Modelled from the spec: the ledger operations of the split service, which is not
  among the sources (the router only imports it).  \<open>applyExpenseDelta\<close> puts the signed
  contribution of the paying user and of each participant into the balance pair
  (payer, participant, currency) and writes both mirrored rows: the row of the payer
  about the participant grows by the participant's share, the mirrored row shrinks by
  it (a payer of 10 split evenly with one friend moves the pair from +20/-20 to
  +25/-25).  A pair is two users, so the payer's own participant row moves nothing.
  A row that does not exist yet is created (an upsert).  The sign is 1 to apply a
  contribution and -1 to reverse it.
\<close>

definition upsert_increment :: "int \<Rightarrow> int \<Rightarrow> string \<Rightarrow> int \<Rightarrow> balance list \<Rightarrow> balance list" where
  "upsert_increment u f c x tbl =
     (if \<exists>b \<in> set tbl. userId b = u \<and> friendId b = f \<and> currency b = c
      then map (\<lambda>b. if userId b = u \<and> friendId b = f \<and> currency b = c
                     then b\<lparr>amount := amount b + x\<rparr> else b) tbl
      else tbl @ [\<lparr>userId = u, friendId = f, currency = c, amount = x\<rparr>])"

definition write_pair :: "int \<Rightarrow> int \<Rightarrow> string \<Rightarrow> int \<Rightarrow> balance list \<Rightarrow> balance list" where
  "write_pair payer p c x tbl = upsert_increment p payer c (- x) (upsert_increment payer p c x tbl)"

fun applyExpenseDelta ::
  "int \<Rightarrow> int \<Rightarrow> string \<Rightarrow> (int \<times> int) list \<Rightarrow> balance list \<Rightarrow> balance list" where
  "applyExpenseDelta sign payer c [] tbl = tbl"
| "applyExpenseDelta sign payer c ((p, share) # ps) tbl =
     applyExpenseDelta sign payer c ps
       (if p = payer then tbl else write_pair payer p c (sign * share) tbl)"

text \<open>
  Modelled from the spec: \<open>deleteExpense\<close> of the split service soft-deletes the expense
  (the deleting user is recorded, the row stays) and reverses its balance contribution;
  deleting an expense that is already soft-deleted is a no-op.  A referenced expense
  that is absent is NotFound.
\<close>

definition splitService_deleteExpense :: "string \<Rightarrow> int \<Rightarrow> db \<Rightarrow> (TRPCError + unit) \<times> db" where
  "splitService_deleteExpense expenseId deleter d =
     (case findUnique (\<lambda>e. e_id e = expenseId) (db_expense d) of
        None \<Rightarrow> (Inl (TRPCError NOT_FOUND ''Expense not found''), d)
      | Some e \<Rightarrow>
          if deletedBy e \<noteq> None then (Inr (), d)
          else
            (Inr (),
             d\<lparr>db_expense := map (\<lambda>x. if e_id x = expenseId then x\<lparr>deletedBy := Some deleter\<rparr> else x)
                                 (db_expense d),
               db_balance := applyExpenseDelta (- 1) (paidBy e) (e_currency e)
                               (expenseParticipants e) (db_balance d)\<rparr>))"

text \<open>The router's procedure: only a participant of the expense may delete it.\<close>

definition deleteExpense :: "session_user \<Rightarrow> string \<Rightarrow> db \<Rightarrow> (TRPCError + unit) \<times> db" where
  "deleteExpense su input_expenseId d =
     (case findUnique (\<lambda>p. ep_expenseId p = input_expenseId \<and> ep_userId p = su_id su)
             (db_expenseParticipant d) of
        None \<Rightarrow> (Inl (TRPCError UNAUTHORIZED ''You are not the participant of the expense''), d)
      | Some expenseParticipant \<Rightarrow> splitService_deleteExpense input_expenseId (su_id su) d)"

text \<open>
  The stored balance of a pair in a currency: the amount of its row, 0 when there is
  none.  What an expense contributes to it: each participant other than the payer adds
  the share to the balance of the payer about the participant and takes it from the
  mirrored one.
\<close>

definition balance_of :: "balance list \<Rightarrow> int \<Rightarrow> int \<Rightarrow> string \<Rightarrow> int" where
  "balance_of tbl u f c =
     (case find (\<lambda>b. userId b = u \<and> friendId b = f \<and> currency b = c) tbl of
        Some b \<Rightarrow> amount b
      | None \<Rightarrow> 0)"

definition contribution :: "int \<Rightarrow> string \<Rightarrow> (int \<times> int) list \<Rightarrow> int \<Rightarrow> int \<Rightarrow> string \<Rightarrow> int" where
  "contribution payer c ps u f c' =
     sum_list (map (\<lambda>(p, share).
                 if p = payer \<or> c' \<noteq> c then 0
                 else (if u = payer \<and> f = p then share else 0)
                      - (if u = p \<and> f = payer then share else 0)) ps)"

text \<open>
  Modelled from the spec: creating an expense stores it with its participant records
  and applies its contribution; editing one first reverses its previous contribution
  and then applies the new one; a settlement is an expense-like record of one user
  paying another, which moves the pair by the amount paid.
\<close>

definition createExpense :: "expense \<Rightarrow> (int \<times> int) list \<Rightarrow> db \<Rightarrow> db" where
  "createExpense e ps d =
     d\<lparr>db_expense := db_expense d @ [e\<lparr>deletedBy := None, expenseParticipants := ps\<rparr>],
       db_balance := applyExpenseDelta 1 (paidBy e) (e_currency e) ps (db_balance d)\<rparr>"

definition editExpense :: "expense \<Rightarrow> (int \<times> int) list \<Rightarrow> db \<Rightarrow> (TRPCError + unit) \<times> db" where
  "editExpense e ps d =
     (case findUnique (\<lambda>x. e_id x = e_id e) (db_expense d) of
        None \<Rightarrow> (Inl (TRPCError NOT_FOUND ''Expense not found''), d)
      | Some old \<Rightarrow>
          (Inr (),
           d\<lparr>db_expense := map (\<lambda>x. if e_id x = e_id e
                                     then e\<lparr>deletedBy := deletedBy x, expenseParticipants := ps\<rparr>
                                     else x)
                               (db_expense d),
             db_balance :=
               applyExpenseDelta 1 (paidBy e) (e_currency e) ps
                 (applyExpenseDelta (- 1) (paidBy old) (e_currency old)
                    (expenseParticipants old) (db_balance d))\<rparr>))"

definition settle :: "expense \<Rightarrow> int \<Rightarrow> db \<Rightarrow> db" where
  "settle e receiver d = createExpense e [(receiver, e_amount e)] d"

text \<open>The operations that change the ledger, and a run of them from a store.\<close>

datatype ledger_op =
    ExpenseCreate expense "(int \<times> int) list"
  | ExpenseEdit expense "(int \<times> int) list"
  | ExpenseDelete session_user string
  | Settlement expense int
  | FriendDelete session_user int

fun ledger_step :: "ledger_op \<Rightarrow> db \<Rightarrow> db" where
  "ledger_step (ExpenseCreate e ps) d = createExpense e ps d"
| "ledger_step (ExpenseEdit e ps) d = snd (editExpense e ps d)"
| "ledger_step (ExpenseDelete su i) d = snd (deleteExpense su i d)"
| "ledger_step (Settlement e r) d = settle e r d"
| "ledger_step (FriendDelete su f) d = snd (deleteFriend su f d)"

definition run_ledger :: "ledger_op list \<Rightarrow> db \<Rightarrow> db" where
  "run_ledger ops d = fold ledger_step ops d"

section \<open>The import reconciler\<close>

text \<open>
  Modelled from the spec: the records of the external service, whose schemas are not
  among the sources.  An external user carries an email, a name and a list of balances
  (currency code and amount, a decimal string); an external group carries its id, its
  name and its members.
\<close>

record splitwise_user =
  sw_email :: string
  sw_name :: "string option"
  sw_balance :: "(string \<times> string) list"

record splitwise_group =
  swg_id :: int
  swg_name :: string
  swg_members :: "splitwise_user list"

text \<open>
  Modelled from the spec: \<open>importUserBalanceFromSplitWise\<close> and
  \<open>importGroupFromSplitwise\<close> of the split service, which is not among the sources.
  For each friend the reconciler creates, or reuses, the local user with the friend's
  email and establishes the mirrored balance rows with the external amounts, positive
  when the friend owes the importing user; an existing row is updated in place, a
  missing one inserted.  For each group it creates, or reuses, the local group with the
  external id and a membership row for each member, reusing local users by email.  The
  reading of an amount string is the parameter \<open>toAmount\<close>.
\<close>

definition find_or_create_user :: "string \<Rightarrow> string option \<Rightarrow> db \<Rightarrow> user \<times> db" where
  "find_or_create_user e n d =
     (case findUnique (\<lambda>u. email u = e) (db_user d) of
        Some u \<Rightarrow> (u, d)
      | None \<Rightarrow> user_create e n d)"

definition upsert_set :: "int \<Rightarrow> int \<Rightarrow> string \<Rightarrow> int \<Rightarrow> balance list \<Rightarrow> balance list" where
  "upsert_set u f c x tbl =
     (if \<exists>b \<in> set tbl. userId b = u \<and> friendId b = f \<and> currency b = c
      then map (\<lambda>b. if userId b = u \<and> friendId b = f \<and> currency b = c
                     then b\<lparr>amount := x\<rparr> else b) tbl
      else tbl @ [\<lparr>userId = u, friendId = f, currency = c, amount = x\<rparr>])"

fun import_balances ::
  "(string \<Rightarrow> int) \<Rightarrow> int \<Rightarrow> int \<Rightarrow> (string \<times> string) list \<Rightarrow> balance list \<Rightarrow> balance list" where
  "import_balances toAmount me fr [] tbl = tbl"
| "import_balances toAmount me fr ((c, a) # bs) tbl =
     import_balances toAmount me fr bs
       (upsert_set fr me c (- toAmount a) (upsert_set me fr c (toAmount a) tbl))"

definition import_friend :: "(string \<Rightarrow> int) \<Rightarrow> int \<Rightarrow> splitwise_user \<Rightarrow> db \<Rightarrow> db" where
  "import_friend toAmount me su d =
     (case find_or_create_user (sw_email su) (sw_name su) d of
        (u, d1) \<Rightarrow>
          d1\<lparr>db_balance := import_balances toAmount me (user_id u) (sw_balance su)
                              (db_balance d1)\<rparr>)"

definition importUserBalanceFromSplitWise ::
  "(string \<Rightarrow> int) \<Rightarrow> int \<Rightarrow> splitwise_user list \<Rightarrow> db \<Rightarrow> db" where
  "importUserBalanceFromSplitWise toAmount me splitWiseUsers d =
     fold (import_friend toAmount me) splitWiseUsers d"

definition find_or_create_group :: "splitwise_group \<Rightarrow> db \<Rightarrow> group \<times> db" where
  "find_or_create_group g d =
     (case findUnique (\<lambda>x. splitwiseGroupId x = Some (swg_id g)) (db_group d) of
        Some x \<Rightarrow> (x, d)
      | None \<Rightarrow>
          (let x = \<lparr>g_id = group_seq d, g_name = swg_name g, splitwiseGroupId = Some (swg_id g)\<rparr>
           in (x, d\<lparr>db_group := db_group d @ [x], group_seq := group_seq d + 1\<rparr>)))"

definition add_member :: "int \<Rightarrow> splitwise_user \<Rightarrow> db \<Rightarrow> db" where
  "add_member gid m d =
     (case find_or_create_user (sw_email m) (sw_name m) d of
        (u, d1) \<Rightarrow>
          if \<exists>r \<in> set (db_groupUser d1). gu_groupId r = gid \<and> gu_userId r = user_id u
          then d1
          else d1\<lparr>db_groupUser := db_groupUser d1 @ [\<lparr>gu_groupId = gid, gu_userId = user_id u\<rparr>]\<rparr>)"

definition import_group :: "splitwise_group \<Rightarrow> db \<Rightarrow> db" where
  "import_group g d =
     (case find_or_create_group g d of
        (x, d1) \<Rightarrow> fold (add_member (g_id x)) (swg_members g) d1)"

definition importGroupFromSplitwise :: "int \<Rightarrow> splitwise_group list \<Rightarrow> db \<Rightarrow> db" where
  "importGroupFromSplitwise me splitWiseGroups d = fold import_group splitWiseGroups d"

text \<open>The router's procedure: the balances of the friends first, then the groups.\<close>

definition importUsersFromSplitWise ::
  "(string \<Rightarrow> int) \<Rightarrow> session_user \<Rightarrow> splitwise_user list \<Rightarrow> splitwise_group list \<Rightarrow> db
     \<Rightarrow> (TRPCError + unit) \<times> db" where
  "importUsersFromSplitWise toAmount su input_usersWithBalance input_groups d =
     (let d1 = importUserBalanceFromSplitWise toAmount (su_id su) input_usersWithBalance d;
          d2 = importGroupFromSplitwise (su_id su) input_groups d1
      in (Inr (), d2))"

section \<open>Shuffling an array\<close>

text \<open>
  \<open>shuffleArray\<close> walks \<open>currentIndex\<close> down from the length of the array; each round
  draws \<open>Math.random()\<close>, multiplies it by \<open>currentIndex\<close> and takes \<open>Math.floor\<close>.
  The arithmetic is that of the language's numbers, the binary64 doubles.  A finite
  double that is not negative is \<open>m * 2 ^ e\<close> for a natural \<open>m\<close> below \<open>2 ^ 53\<close> and an
  integer \<open>e\<close> from -1074 on; it is kept as the pair \<open>(m, e)\<close>.  \<open>Math.random()\<close>
  returns such a double below 1: the k-th draw is \<open>rnd k\<close>.
\<close>

type_synonym double = "nat \<times> int"

definition unit_double :: "double \<Rightarrow> bool" where
  "unit_double x =
     (case x of (m, e) \<Rightarrow>
        m < 2 ^ 53 \<and> - 1074 \<le> e \<and> (m = 0 \<or> (e < 0 \<and> m < 2 ^ nat (- e))))"

text \<open>The number of binary digits of a natural number.\<close>

fun bit_length :: "nat \<Rightarrow> nat" where
  "bit_length n = (if n = 0 then 0 else Suc (bit_length (n div 2)))"

declare bit_length.simps [simp del]

text \<open>
  \<open>p / 2 ^ k\<close> rounded to the nearest natural number, a tie going to the even one.
\<close>

definition round_half_even :: "nat \<Rightarrow> nat \<Rightarrow> nat" where
  "round_half_even p k =
     (let q = p div 2 ^ k; r = p mod 2 ^ k; h = 2 ^ (k - 1)
      in if r < h then q else if h < r then q + 1 else if even q then q else q + 1)"

text \<open>
  The product \<open>x * n\<close> of a double and an index (an integer below \<open>2 ^ 32\<close>, which a
  double holds exactly): the exact product \<open>(m * n) * 2 ^ e\<close> when \<open>m * n\<close> fits into 53
  bits, and otherwise the double nearest to it, a tie going to the even significand.
  A draw is below 1, so the product is below \<open>2 ^ 32\<close> and never overflows; a product
  that needs rounding is at least \<open>2 ^ 53 * 2 ^ e\<close>, a normal double.
\<close>

definition times_index :: "double \<Rightarrow> nat \<Rightarrow> double" where
  "times_index x n =
     (case x of (m, e) \<Rightarrow>
        let p = m * n in
        if p < 2 ^ 53 then (p, e)
        else let k = bit_length p - 53 in (round_half_even p k, e + int k))"

definition Math_floor :: "double \<Rightarrow> nat" where
  "Math_floor x =
     (case x of (m, e) \<Rightarrow> if 0 \<le> e then m * 2 ^ nat e else m div 2 ^ nat (- e))"

text \<open>
  The array is a list updated in place; a round whose indices are not both inside the
  array ends the model with None (JavaScript would read undefined and write past the
  end there).
\<close>

fun shuffle_loop :: "(nat \<Rightarrow> double) \<Rightarrow> nat \<Rightarrow> nat \<Rightarrow> 'a list \<Rightarrow> 'a list option" where
  "shuffle_loop rnd k 0 array = Some array"
| "shuffle_loop rnd k (Suc n) array =
     (let randomIndex = Math_floor (times_index (rnd k) (Suc n));
          currentIndex = n
      in if currentIndex < length array \<and> randomIndex < length array
         then shuffle_loop rnd (Suc k) currentIndex
                (array[currentIndex := array ! randomIndex,
                       randomIndex := array ! currentIndex])
         else None)"

definition shuffleArray :: "(nat \<Rightarrow> double) \<Rightarrow> 'a list \<Rightarrow> 'a list option" where
  "shuffleArray rnd array = shuffle_loop rnd 0 (length array) array"

section \<open>The import page\<close>

text \<open>
  The page reads an uploaded file with \<open>JSON.parse\<close> and walks the parsed value with
  casts only, so the value can have any shape.  A JSON value is modelled as follows:
  numbers are the integers a double holds exactly (the ids of the external service), a
  string is the list of its code units, an object lists its own properties, each name
  once.  A JavaScript value is a JSON value or \<open>undefined\<close> (None).
\<close>

datatype json =
    JNull
  | JBool bool
  | JNum int
  | JStr string
  | JArr "json list"
  | JObj "(string \<times> json) list"

type_synonym jsval = "json option"

datatype js_error = SyntaxError | TypeError

definition bindE :: "'e + 'a \<Rightarrow> ('a \<Rightarrow> 'e + 'b) \<Rightarrow> 'e + 'b" where
  "bindE m f = (case m of Inl e \<Rightarrow> Inl e | Inr x \<Rightarrow> f x)"

text \<open>
  Reading a property \<open>v.p\<close>: a TypeError on \<open>undefined\<close> and \<open>null\<close>; the own property
  of an object; the length of an array or a string; \<open>undefined\<close> otherwise.  The names
  the page reads (friends, groups, balance, registration_status, members, id, length)
  are neither indices nor inherited properties.
\<close>

fun get_prop :: "jsval \<Rightarrow> string \<Rightarrow> js_error + jsval" where
  "get_prop None p = Inl TypeError"
| "get_prop (Some JNull) p = Inl TypeError"
| "get_prop (Some (JObj kvs)) p = Inr (map_of kvs p)"
| "get_prop (Some (JArr xs)) p =
     Inr (if p = ''length'' then Some (JNum (int (length xs))) else None)"
| "get_prop (Some (JStr s)) p =
     Inr (if p = ''length'' then Some (JNum (int (length s))) else None)"
| "get_prop (Some (JBool b)) p = Inr None"
| "get_prop (Some (JNum n)) p = Inr None"

text \<open>The truth value of a JavaScript value in a condition.\<close>

fun truthy :: "jsval \<Rightarrow> bool" where
  "truthy None = False"
| "truthy (Some JNull) = False"
| "truthy (Some (JBool b)) = b"
| "truthy (Some (JNum n)) = (n \<noteq> 0)"
| "truthy (Some (JStr s)) = (s \<noteq> [])"
| "truthy (Some (JArr xs)) = True"
| "truthy (Some (JObj kvs)) = True"

text \<open>
  The decimal digits of an integer, as the language prints a number that is one.
\<close>

definition digit :: "nat \<Rightarrow> char" where
  "digit n = ''0123456789'' ! n"

fun digits :: "nat \<Rightarrow> string" where
  "digits n = (if n < 10 then [digit n] else digits (n div 10) @ [digit (n mod 10)])"

declare digits.simps [simp del]

definition show_int :: "int \<Rightarrow> string" where
  "show_int i = (if i < 0 then CHR ''-'' # digits (nat (- i)) else digits (nat i))"

text \<open>
  The conversion of a value to a string.  An array is the strings of its elements
  joined by commas, \<open>null\<close> counting as the empty string.  An object is converted by
  its \<open>toString\<close>: the inherited one gives \<open>[object Object]\<close>; an own property of
  that name hides it and, coming from JSON, cannot be called, and then no conversion
  is left (the inherited \<open>valueOf\<close> returns the object itself): a TypeError.
\<close>

fun js_to_string :: "json \<Rightarrow> js_error + string"
  and js_join :: "json list \<Rightarrow> js_error + string" where
  "js_to_string JNull = Inr ''null''"
| "js_to_string (JBool b) = Inr (if b then ''true'' else ''false'')"
| "js_to_string (JNum n) = Inr (show_int n)"
| "js_to_string (JStr s) = Inr s"
| "js_to_string (JArr xs) = js_join xs"
| "js_to_string (JObj kvs) =
     (if map_of kvs ''toString'' \<noteq> None then Inl TypeError else Inr ''[object Object]'')"
| "js_join [] = Inr []"
| "js_join [x] = (if x = JNull then Inr [] else js_to_string x)"
| "js_join (x # y # ys) =
     bindE (if x = JNull then Inr [] else js_to_string x) (\<lambda>s.
     bindE (js_join (y # ys)) (\<lambda>r. Inr (s @ '','' @ r)))"

text \<open>The name under which a value is used as a property key.\<close>

definition to_property_key :: "jsval \<Rightarrow> js_error + string" where
  "to_property_key v = (case v of None \<Rightarrow> Inr ''undefined'' | Some j \<Rightarrow> js_to_string j)"

text \<open>
  The comparison \<open>0 < v\<close>: \<open>undefined\<close> is not a number, \<open>null\<close> is 0, true is 1.  A
  string is read as a number: that reading is the parameter \<open>positive\<close>, which says
  whether the number read is above 0.  An array or an object is converted to a string
  first (which may throw, as above); \<open>[object Object]\<close> reads as no number.
\<close>

fun zero_less :: "(string \<Rightarrow> bool) \<Rightarrow> jsval \<Rightarrow> js_error + bool" where
  "zero_less positive None = Inr False"
| "zero_less positive (Some JNull) = Inr False"
| "zero_less positive (Some (JBool b)) = Inr b"
| "zero_less positive (Some (JNum n)) = Inr (0 < n)"
| "zero_less positive (Some (JStr s)) = Inr (positive s)"
| "zero_less positive (Some (JArr xs)) = bindE (js_join xs) (\<lambda>s. Inr (positive s))"
| "zero_less positive (Some (JObj kvs)) =
     (if map_of kvs ''toString'' \<noteq> None then Inl TypeError else Inr False)"

text \<open>What \<open>for ... of\<close> iterates over: the elements of an array, the characters of a string.\<close>

fun iterate :: "jsval \<Rightarrow> js_error + json list" where
  "iterate (Some (JArr xs)) = Inr xs"
| "iterate (Some (JStr s)) = Inr (map (\<lambda>c. JStr [c]) s)"
| "iterate v = Inl TypeError"

text \<open>The body of the loop over \<open>json.friends\<close>, with the list it pushes to.\<close>

fun friends_loop :: "json list \<Rightarrow> json list \<Rightarrow> js_error + json list" where
  "friends_loop [] friendsWithOutStandingBalance = Inr friendsWithOutStandingBalance"
| "friends_loop (friend # rest) friendsWithOutStandingBalance =
     bindE (get_prop (Some friend) ''balance'') (\<lambda>balance.
     bindE (get_prop balance ''length'') (\<lambda>len.
     bindE (if truthy len
            then bindE (get_prop (Some friend) ''registration_status'')
                   (\<lambda>status. Inr (status = Some (JStr ''confirmed'')))
            else Inr False) (\<lambda>keep.
     friends_loop rest
       (if keep then friendsWithOutStandingBalance @ [friend]
        else friendsWithOutStandingBalance))))"

text \<open>The callback of the filter over \<open>json.groups\<close>: \<open>0 < g.members.length && 0 !== g.id\<close>.\<close>

definition group_callback :: "(string \<Rightarrow> bool) \<Rightarrow> json \<Rightarrow> js_error + bool" where
  "group_callback positive g =
     bindE (get_prop (Some g) ''members'') (\<lambda>members.
     bindE (get_prop members ''length'') (\<lambda>len.
     bindE (zero_less positive len) (\<lambda>pos.
       if pos
       then bindE (get_prop (Some g) ''id'') (\<lambda>i. Inr (i \<noteq> Some (JNum 0)))
       else Inr False)))"

fun filter_loop :: "('a \<Rightarrow> js_error + bool) \<Rightarrow> 'a list \<Rightarrow> js_error + 'a list" where
  "filter_loop cb [] = Inr []"
| "filter_loop cb (x # xs) =
     bindE (cb x) (\<lambda>keep.
     bindE (filter_loop cb xs) (\<lambda>r. Inr (if keep then x # r else r)))"

text \<open>Calling \<open>v.filter(cb)\<close>: only an array has the method.\<close>

fun js_filter :: "(json \<Rightarrow> js_error + bool) \<Rightarrow> jsval \<Rightarrow> js_error + json list" where
  "js_filter cb (Some (JArr xs)) = filter_loop cb xs"
| "js_filter cb v = Inl TypeError"

text \<open>
  The two reductions that select every retained entry: \<open>acc[x.id] = true\<close> on a
  record that starts empty.  The id is turned into a property key, which may throw;
  the key \<open>__proto__\<close> is the inherited accessor, and assigning true to it stores
  nothing.
\<close>

fun record_put :: "'k \<Rightarrow> 'v \<Rightarrow> ('k \<times> 'v) list \<Rightarrow> ('k \<times> 'v) list" where
  "record_put k v [] = [(k, v)]"
| "record_put k v ((k', v') # acc) =
     (if k' = k then (k, v) # acc else (k', v') # record_put k v acc)"

fun select_all :: "json list \<Rightarrow> (string \<times> bool) list \<Rightarrow> js_error + (string \<times> bool) list" where
  "select_all [] acc = Inr acc"
| "select_all (x # xs) acc =
     bindE (get_prop (Some x) ''id'') (\<lambda>i.
     bindE (to_property_key i) (\<lambda>k.
     select_all xs (if k = ''__proto__'' then acc else record_put k True acc)))"

text \<open>
  An uploaded file is taken as what \<open>JSON.parse\<close> makes of its text: None when the
  text is not JSON (a SyntaxError).  The state of the page, with the toasts shown and
  the errors logged.
\<close>

type_synonym json_file = "json option"

record page_state =
  usersWithBalance :: "json list"
  groups :: "json list"
  selectedUsers :: "(string \<times> bool) list"
  selectedGroups :: "(string \<times> bool) list"
  uploadedFile :: "json_file option"
  toasts :: "string list"
  console :: "js_error list"

definition JSON_parse :: "json_file \<Rightarrow> js_error + json" where
  "JSON_parse f = (case f of None \<Rightarrow> Inl SyntaxError | Some j \<Rightarrow> Inr j)"

text \<open>The friends the loop retains, and the groups the filter retains.\<close>

definition parse_friends :: "json \<Rightarrow> js_error + json list" where
  "parse_friends j =
     bindE (get_prop (Some j) ''friends'') (\<lambda>friends.
     bindE (iterate friends) (\<lambda>fs. friends_loop fs []))"

definition parse_groups :: "(string \<Rightarrow> bool) \<Rightarrow> json \<Rightarrow> js_error + json list" where
  "parse_groups positive j =
     bindE (get_prop (Some j) ''groups'') (js_filter (group_callback positive))"

text \<open>
  The \<open>try\<close> block of \<open>handleFileChange\<close>: it returns the error thrown, if any, with the
  state the page has at that moment.
\<close>

definition try_block :: "(string \<Rightarrow> bool) \<Rightarrow> json_file \<Rightarrow> page_state \<Rightarrow> (js_error + unit) \<times> page_state" where
  "try_block positive f st =
     (case JSON_parse f of
        Inl e \<Rightarrow> (Inl e, st)
      | Inr j \<Rightarrow>
     (case parse_friends j of
        Inl e \<Rightarrow> (Inl e, st)
      | Inr friendsWithOutStandingBalance \<Rightarrow>
     let st1 = st\<lparr>usersWithBalance := friendsWithOutStandingBalance\<rparr> in
     (case select_all friendsWithOutStandingBalance [] of
        Inl e \<Rightarrow> (Inl e, st1)
      | Inr sel \<Rightarrow>
     let st2 = st1\<lparr>selectedUsers := sel\<rparr> in
     (case parse_groups positive j of
        Inl e \<Rightarrow> (Inl e, st2)
      | Inr gs \<Rightarrow>
     let st3 = st2\<lparr>groups := gs\<rparr> in
     (case select_all gs [] of
        Inl e \<Rightarrow> (Inl e, st3)
      | Inr sel' \<Rightarrow> (Inr (), st3\<lparr>selectedGroups := sel'\<rparr>))))))"

definition handleFileChange :: "(string \<Rightarrow> bool) \<Rightarrow> json_file option \<Rightarrow> page_state \<Rightarrow> page_state" where
  "handleFileChange positive file st =
     (case file of
        None \<Rightarrow> st
      | Some f \<Rightarrow>
          (case try_block positive f (st\<lparr>uploadedFile := Some f\<rparr>) of
             (Inl e, st') \<Rightarrow> st'\<lparr>console := console st' @ [e],
                                  toasts := toasts st' @ [''Error importing file'']\<rparr>
           | (Inr u, st') \<Rightarrow> st'))"

text \<open>
  The typed reading of a well-shaped file: a friend is an object with a number as id
  and an array as balance, a group an object with a number as id and an array as
  members.
\<close>

definition field :: "json \<Rightarrow> string \<Rightarrow> jsval" where
  "field v p = (case v of JObj kvs \<Rightarrow> map_of kvs p | _ \<Rightarrow> None)"

definition elements :: "jsval \<Rightarrow> json list" where
  "elements v = (case v of Some (JArr xs) \<Rightarrow> xs | _ \<Rightarrow> [])"

definition is_array :: "jsval \<Rightarrow> bool" where
  "is_array v = (case v of Some (JArr xs) \<Rightarrow> True | _ \<Rightarrow> False)"

definition is_number :: "jsval \<Rightarrow> bool" where
  "is_number v = (case v of Some (JNum n) \<Rightarrow> True | _ \<Rightarrow> False)"

definition is_object :: "json \<Rightarrow> bool" where
  "is_object v = (case v of JObj kvs \<Rightarrow> True | _ \<Rightarrow> False)"

definition shaped_friend :: "json \<Rightarrow> bool" where
  "shaped_friend f = (is_object f \<and> is_number (field f ''id'') \<and> is_array (field f ''balance''))"

definition shaped_group :: "json \<Rightarrow> bool" where
  "shaped_group g = (is_object g \<and> is_number (field g ''id'') \<and> is_array (field g ''members''))"

definition well_shaped :: "json \<Rightarrow> bool" where
  "well_shaped j =
     (is_object j
      \<and> is_array (field j ''friends'')
      \<and> list_all shaped_friend (elements (field j ''friends''))
      \<and> is_array (field j ''groups'')
      \<and> list_all shaped_group (elements (field j ''groups'')))"



section \<open>Notions for reasoning about the import\<close>

text \<open>
  A balance row is addressed by its key (user, friend, currency); the reconciler's
  balance updates are a list of writes to keys, and the last write to a key decides
  the amount.  Users are looked up by email and groups by external id, the first
  matching row counting; a store extends another when its user, group and membership
  tables continue the other's and the balances are the same.
\<close>

definition bkey :: "balance \<Rightarrow> int \<times> int \<times> string" where
  "bkey b = (userId b, friendId b, currency b)"

definition set_row :: "int \<times> int \<times> string \<Rightarrow> int \<Rightarrow> balance list \<Rightarrow> balance list" where
  "set_row k x tbl = (case k of (u, f, c) \<Rightarrow> upsert_set u f c x tbl)"

definition apply_writes :: "((int \<times> int \<times> string) \<times> int) list \<Rightarrow> balance list \<Rightarrow> balance list" where
  "apply_writes ws tbl = fold (\<lambda>(k, x). set_row k x) ws tbl"

definition overwrite :: "((int \<times> int \<times> string) \<times> int) list \<Rightarrow> balance \<Rightarrow> balance" where
  "overwrite ws r = (case map_of (rev ws) (bkey r) of None \<Rightarrow> r | Some v \<Rightarrow> r\<lparr>amount := v\<rparr>)"

definition friend_writes ::
  "(string \<Rightarrow> int) \<Rightarrow> int \<Rightarrow> int \<Rightarrow> (string \<times> string) list \<Rightarrow> ((int \<times> int \<times> string) \<times> int) list" where
  "friend_writes toAmount me fr bs =
     concat (map (\<lambda>(c, a). [((me, fr, c), toAmount a), ((fr, me, c), - toAmount a)]) bs)"

definition uid_of :: "user list \<Rightarrow> string \<Rightarrow> int" where
  "uid_of us e = (case find (\<lambda>u. email u = e) us of Some u \<Rightarrow> user_id u | None \<Rightarrow> 0)"

definition ensure_user :: "string \<Rightarrow> string option \<Rightarrow> db \<Rightarrow> db" where
  "ensure_user e n d = snd (find_or_create_user e n d)"

definition known :: "db \<Rightarrow> string \<Rightarrow> bool" where
  "known d e = (\<exists>u \<in> set (db_user d). email u = e)"

definition ensure_all :: "splitwise_user list \<Rightarrow> db \<Rightarrow> db" where
  "ensure_all sus d = fold (\<lambda>su. ensure_user (sw_email su) (sw_name su)) sus d"

definition all_writes ::
  "(string \<Rightarrow> int) \<Rightarrow> int \<Rightarrow> user list \<Rightarrow> splitwise_user list \<Rightarrow> ((int \<times> int \<times> string) \<times> int) list" where
  "all_writes toAmount me us sus =
     concat (map (\<lambda>su. friend_writes toAmount me (uid_of us (sw_email su)) (sw_balance su)) sus)"

definition extends :: "db \<Rightarrow> db \<Rightarrow> bool" where
  "extends d d' =
     ((\<exists>a. db_user d' = db_user d @ a) \<and> (\<exists>b. db_group d' = db_group d @ b)
      \<and> (\<exists>c. db_groupUser d' = db_groupUser d @ c) \<and> db_balance d' = db_balance d)"

definition member_done :: "int \<Rightarrow> splitwise_user \<Rightarrow> db \<Rightarrow> bool" where
  "member_done gid m d =
     (known d (sw_email m)
      \<and> (\<exists>r \<in> set (db_groupUser d). gu_groupId r = gid
                                   \<and> gu_userId r = uid_of (db_user d) (sw_email m)))"

definition gid_of :: "group list \<Rightarrow> int \<Rightarrow> int" where
  "gid_of gs x = (case find (\<lambda>g. splitwiseGroupId g = Some x) gs of Some g \<Rightarrow> g_id g | None \<Rightarrow> 0)"

definition gknown :: "db \<Rightarrow> int \<Rightarrow> bool" where
  "gknown d x = (\<exists>g \<in> set (db_group d). splitwiseGroupId g = Some x)"

definition ensure_group :: "splitwise_group \<Rightarrow> db \<Rightarrow> db" where
  "ensure_group g d = snd (find_or_create_group g d)"

definition group_done :: "splitwise_group \<Rightarrow> db \<Rightarrow> bool" where
  "group_done g d =
     (gknown d (swg_id g)
      \<and> (\<forall>m \<in> set (swg_members g). member_done (gid_of (db_group d) (swg_id g)) m d))"

text \<open>Example stores for the closed instances below.\<close>

definition mk_balance :: "int \<Rightarrow> int \<Rightarrow> string \<Rightarrow> int \<Rightarrow> balance" where
  "mk_balance u f c x = \<lparr>userId = u, friendId = f, currency = c, amount = x\<rparr>"

definition mk_db :: "balance list \<Rightarrow> db" where
  "mk_db bs = \<lparr>db_user = [], user_seq = 1, db_balance = bs, db_expense = [],
              db_group = [], group_seq = 1, db_groupUser = [],
              outbox = []\<rparr>"

definition mk_session :: "int \<Rightarrow> session_user" where
  "mk_session u = \<lparr>su_id = u, su_name = None, su_email = None\<rparr>"

definition ex_expense :: "string \<Rightarrow> int \<Rightarrow> int \<Rightarrow> expense" where
  "ex_expense i payer x =
     \<lparr>e_id = i, paidBy = payer, e_currency = ''USD'', e_amount = x, deletedBy = None,
      expenseParticipants = []\<rparr>"

definition ex_store :: db where
  "ex_store = createExpense (ex_expense ''e1'' 1 10) [(1, 5), (2, 5)]
                (mk_db [mk_balance 1 2 ''USD'' 20, mk_balance 2 1 ''USD'' (- 20)])"

definition ex_users :: db where
  "ex_users = (mk_db [])\<lparr>db_user := [\<lparr>user_id = 1, email = ''ann@x.org'', name = Some ''Ann''\<rparr>],
                          user_seq := 2\<rparr>"

definition ex_friend :: json where
  "ex_friend = JObj [(''id'', JNum 7),
                     (''balance'', JArr [JObj [(''currency_code'', JStr ''USD''),
                                               (''amount'', JStr ''5.0'')]]),
                     (''registration_status'', JStr ''confirmed'')]"

definition init_page :: page_state where
  "init_page = \<lparr>usersWithBalance = [], groups = [], selectedUsers = [], selectedGroups = [],
                 uploadedFile = None, toasts = [], console = []\<rparr>"

definition ex_file :: json where
  "ex_file = JObj
     [(''friends'', JArr
        [ex_friend,
         JObj [(''id'', JNum 8), (''balance'', JArr [JObj [(''currency_code'', JStr ''EUR''),
                                                        (''amount'', JStr ''1.5'')]]),
               (''registration_status'', JStr ''invited'')],
         JObj [(''id'', JNum 9), (''balance'', JArr []),
               (''registration_status'', JStr ''confirmed'')]]),
      (''groups'', JArr
        [JObj [(''id'', JNum 0), (''name'', JStr ''Non-group expenses''),
               (''members'', JArr [JObj [(''id'', JNum 7)]])],
         JObj [(''id'', JNum 31), (''name'', JStr ''Flat''),
               (''members'', JArr [JObj [(''id'', JNum 7)], JObj [(''id'', JNum 8)]])],
         JObj [(''id'', JNum 32), (''name'', JStr ''Empty''), (''members'', JArr [])]])]"

definition ex_amount :: "string \<Rightarrow> int" where
  "ex_amount a = (if a = ''5.00'' then 500 else if a = ''-3.20'' then - 320 else 0)"

definition ex_friends :: "splitwise_user list" where
  "ex_friends =
     [\<lparr>sw_email = ''ann@x.org'', sw_name = Some ''Ann'', sw_balance = [(''USD'', ''5.00'')]\<rparr>,
      \<lparr>sw_email = ''bob@y.org'', sw_name = Some ''Bob'', sw_balance = [(''EUR'', ''-3.20'')]\<rparr>]"

definition ex_groups :: "splitwise_group list" where
  "ex_groups =
     [\<lparr>swg_id = 31, swg_name = ''Flat'',
       swg_members = [\<lparr>sw_email = ''ann@x.org'', sw_name = Some ''Ann'', sw_balance = []\<rparr>,
                      \<lparr>sw_email = ''cat@z.org'', sw_name = Some ''Cat'', sw_balance = []\<rparr>]\<rparr>]"

definition ex_imported :: db where
  "ex_imported =
     \<lparr>db_user = [\<lparr>user_id = 1, email = ''ann@x.org'', name = Some ''Ann''\<rparr>,
                 \<lparr>user_id = 2, email = ''bob@y.org'', name = Some ''Bob''\<rparr>,
                 \<lparr>user_id = 3, email = ''cat@z.org'', name = Some ''Cat''\<rparr>],
      user_seq = 4,
      db_balance = [mk_balance 7 1 ''USD'' 500, mk_balance 1 7 ''USD'' (- 500),
                    mk_balance 7 2 ''EUR'' (- 320), mk_balance 2 7 ''EUR'' 320],
      db_expense = [],
      db_group = [\<lparr>g_id = 1, g_name = ''Flat'', splitwiseGroupId = Some 31\<rparr>],
      group_seq = 2,
      db_groupUser = [\<lparr>gu_groupId = 1, gu_userId = 1\<rparr>, \<lparr>gu_groupId = 1, gu_userId = 3\<rparr>],
      outbox = []\<rparr>"

text \<open>The doubles nearest to 0.3 and to 0.7.\<close>

definition d03 :: double where
  "d03 = (5404319552844595, - 54)"

definition d07 :: double where
  "d07 = (6305039478318694, - 53)"

section \<open>Balances with a friend\<close>

lemma mirror_mirror: "mirror (mirror b) = b"
  by (simp add: mirror_def)

lemma mirrored_iff: "mirrored tbl \<longleftrightarrow> (\<forall>b \<in> set tbl. mirror b \<in> set tbl)"
  by (simp add: mirrored_def list_all_iff)

text \<open>
  C6: getBalancesWithFriend returns exactly the stored rows of the acting user about
  the friend whose amount is not 0 (each as often as it is stored), never a row with
  amount 0, and leaves the store as it was.
\<close>

theorem getBalancesWithFriend_nonzero_rows:
  "\<exists>rows. getBalancesWithFriend su f d = (Inr rows, d)
     \<and> mset rows = filter_mset (\<lambda>b. userId b = su_id su \<and> friendId b = f \<and> amount b \<noteq> 0)
                     (mset (db_balance d))
     \<and> (\<forall>b \<in> set rows. amount b \<noteq> 0)"
  by (simp add: getBalancesWithFriend_def findMany_def Let_def)

theorem getBalancesWithFriend_nonzero_rows_witness:
  "getBalancesWithFriend (mk_session 1) 2
      (mk_db [mk_balance 1 2 ''USD'' 20, mk_balance 2 1 ''USD'' (-20), mk_balance 1 2 ''EUR'' 0])
    = (Inr [mk_balance 1 2 ''USD'' 20],
       mk_db [mk_balance 1 2 ''USD'' 20, mk_balance 2 1 ''USD'' (-20), mk_balance 1 2 ''EUR'' 0])"
  using getBalancesWithFriend_nonzero_rows
    [of "mk_session 1" 2
        "mk_db [mk_balance 1 2 ''USD'' 20, mk_balance 2 1 ''USD'' (-20), mk_balance 1 2 ''EUR'' 0]"]
  by (simp add: getBalancesWithFriend_def findMany_def mk_session_def mk_db_def mk_balance_def)

section \<open>The order of the rows a query returns\<close>

text \<open>
  C7 as stated: the list getBalancesWithFriend returns is sorted by currency code.  The
  query has no ordering clause: stored in the order USD, EUR, the rows come back in
  that order.
\<close>

theorem getBalancesWithFriend_unsorted_counterexample:
  "getBalancesWithFriend (mk_session 1) 2
      (mk_db [mk_balance 1 2 ''USD'' 20, mk_balance 1 2 ''EUR'' 5])
    = (Inr [mk_balance 1 2 ''USD'' 20, mk_balance 1 2 ''EUR'' 5],
       mk_db [mk_balance 1 2 ''USD'' 20, mk_balance 1 2 ''EUR'' 5])
   \<and> \<not> sorted (map currency [mk_balance 1 2 ''USD'' 20, mk_balance 1 2 ''EUR'' 5])"
  by (simp add: getBalancesWithFriend_def findMany_def mk_session_def mk_db_def mk_balance_def)

text \<open>
  C7 amended: getBalancesWithFriend applies no ordering of its own: it returns the
  matching rows in the order in which the store yields its rows, so the list is in
  currency-code order whenever the store yields the rows in currency-code order; no
  order is promised otherwise.
\<close>

theorem getBalancesWithFriend_store_order:
  "\<exists>rows. getBalancesWithFriend su f d = (Inr rows, d)
     \<and> rows = filter (\<lambda>b. userId b = su_id su \<and> friendId b = f \<and> amount b \<noteq> 0) (db_balance d)
     \<and> (sorted (map currency (db_balance d)) \<longrightarrow> sorted (map currency rows))"
  by (simp add: getBalancesWithFriend_def findMany_def Let_def sorted_filter)

theorem getBalancesWithFriend_store_order_witness:
  "sorted (map currency (db_balance (mk_db [mk_balance 1 2 ''EUR'' 5, mk_balance 1 3 ''GBP'' 1,
                                            mk_balance 1 2 ''USD'' 20])))
   \<and> getBalancesWithFriend (mk_session 1) 2
        (mk_db [mk_balance 1 2 ''EUR'' 5, mk_balance 1 3 ''GBP'' 1, mk_balance 1 2 ''USD'' 20])
      = (Inr [mk_balance 1 2 ''EUR'' 5, mk_balance 1 2 ''USD'' 20],
         mk_db [mk_balance 1 2 ''EUR'' 5, mk_balance 1 3 ''GBP'' 1, mk_balance 1 2 ''USD'' 20])
   \<and> sorted (map currency [mk_balance 1 2 ''EUR'' 5, mk_balance 1 2 ''USD'' 20])"
proof -
  let ?d = "mk_db [mk_balance 1 2 ''EUR'' 5, mk_balance 1 3 ''GBP'' 1, mk_balance 1 2 ''USD'' 20]"
  have h: "sorted (map currency (db_balance ?d))"
    by (simp add: mk_db_def mk_balance_def)
  from getBalancesWithFriend_store_order [of "mk_session 1" 2 ?d] h
  obtain rows where r: "getBalancesWithFriend (mk_session 1) 2 ?d = (Inr rows, ?d)"
    and e: "rows = filter (\<lambda>b. userId b = su_id (mk_session 1) \<and> friendId b = 2 \<and> amount b \<noteq> 0)
                     (db_balance ?d)"
    and s: "sorted (map currency rows)"
    by blast
  from e have "rows = [mk_balance 1 2 ''EUR'' 5, mk_balance 1 2 ''USD'' 20]"
    by (simp add: mk_db_def mk_balance_def mk_session_def)
  with h r s show ?thesis by simp
qed

section \<open>Deleting a friend\<close>

lemma findMany_nonempty: "0 < length (findMany P xs) \<longleftrightarrow> (\<exists>x \<in> set xs. P x)"
  by (simp add: findMany_def filter_empty_conv)

lemma deleteFriend_fst:
  "fst (deleteFriend su f d) =
     (if \<exists>b \<in> set (db_balance d). userId b = su_id su \<and> friendId b = f \<and> amount b \<noteq> 0
      then Inl (TRPCError BAD_REQUEST ''You have outstanding balances with this friend'')
      else Inr ())"
  unfolding deleteFriend_def Let_def findMany_nonempty by auto

lemma deleteFriend_snd:
  "snd (deleteFriend su f d) =
     (if \<exists>b \<in> set (db_balance d). userId b = su_id su \<and> friendId b = f \<and> amount b \<noteq> 0
      then d
      else d\<lparr>db_balance := filter (\<lambda>b. \<not> between (su_id su) f b) (db_balance d)\<rparr>)"
proof -
  have "deleteMany (\<lambda>b. friendId b = f \<and> userId b = su_id su)
          (deleteMany (\<lambda>b. userId b = f \<and> friendId b = su_id su) tbl)
        = filter (\<lambda>b. \<not> between (su_id su) f b) tbl" for tbl
    unfolding deleteMany_def filter_filter between_def
    by (rule filter_cong) auto
  then show ?thesis
    unfolding deleteFriend_def Let_def findMany_nonempty by auto
qed

lemma mirrored_outstanding:
  assumes "mirrored tbl"
  shows "(\<exists>b \<in> set tbl. between u f b \<and> amount b \<noteq> 0)
         \<longleftrightarrow> (\<exists>b \<in> set tbl. userId b = u \<and> friendId b = f \<and> amount b \<noteq> 0)"
proof
  assume "\<exists>b \<in> set tbl. between u f b \<and> amount b \<noteq> 0"
  then obtain b where b: "b \<in> set tbl" "between u f b" "amount b \<noteq> 0" by blast
  show "\<exists>b \<in> set tbl. userId b = u \<and> friendId b = f \<and> amount b \<noteq> 0"
  proof (cases "userId b = u \<and> friendId b = f")
    case True
    with b show ?thesis by blast
  next
    case False
    with b have "userId (mirror b) = u \<and> friendId (mirror b) = f \<and> amount (mirror b) \<noteq> 0"
      by (simp add: between_def mirror_def)
    moreover from assms b have "mirror b \<in> set tbl" by (simp add: mirrored_iff)
    ultimately show ?thesis by blast
  qed
next
  assume "\<exists>b \<in> set tbl. userId b = u \<and> friendId b = f \<and> amount b \<noteq> 0"
  then show "\<exists>b \<in> set tbl. between u f b \<and> amount b \<noteq> 0"
    by (auto simp: between_def)
qed

text \<open>
  C2: deleteFriend fails, with the BAD_REQUEST error of outstanding balances, exactly
  when the acting user has a row about the friend with a non-zero amount; on a
  mirrored table that is exactly when some row between the two, in either direction,
  is non-zero.  When it succeeds the rows between the two users, in both directions
  and in every currency, are gone and every other row stays; when it fails the store
  is unchanged.
\<close>

theorem deleteFriend_outstanding_balance:
  "(fst (deleteFriend su f d) = Inl (TRPCError BAD_REQUEST ''You have outstanding balances with this friend'')
     \<or> fst (deleteFriend su f d) = Inr ())
   \<and> (fst (deleteFriend su f d) = Inl (TRPCError BAD_REQUEST ''You have outstanding balances with this friend'')
       \<longleftrightarrow> (\<exists>b \<in> set (db_balance d). userId b = su_id su \<and> friendId b = f \<and> amount b \<noteq> 0))
   \<and> (mirrored (db_balance d) \<longrightarrow>
        (fst (deleteFriend su f d) = Inl (TRPCError BAD_REQUEST ''You have outstanding balances with this friend'')
          \<longleftrightarrow> (\<exists>b \<in> set (db_balance d). between (su_id su) f b \<and> amount b \<noteq> 0)))
   \<and> (fst (deleteFriend su f d) = Inr () \<longrightarrow>
        snd (deleteFriend su f d) = d\<lparr>db_balance := filter (\<lambda>b. \<not> between (su_id su) f b) (db_balance d)\<rparr>)
   \<and> (fst (deleteFriend su f d) \<noteq> Inr () \<longrightarrow> snd (deleteFriend su f d) = d)"
proof (cases "\<exists>b \<in> set (db_balance d). userId b = su_id su \<and> friendId b = f \<and> amount b \<noteq> 0")
  case True
  then have r: "fst (deleteFriend su f d)
                  = Inl (TRPCError BAD_REQUEST ''You have outstanding balances with this friend'')"
    and s: "snd (deleteFriend su f d) = d"
    by (simp_all only: deleteFriend_fst deleteFriend_snd if_True)
  from True have "\<exists>b \<in> set (db_balance d). between (su_id su) f b \<and> amount b \<noteq> 0"
    by (auto simp: between_def)
  with True show ?thesis unfolding r s by simp
next
  case False
  then have r: "fst (deleteFriend su f d) = Inr ()"
    and s: "snd (deleteFriend su f d)
              = d\<lparr>db_balance := filter (\<lambda>b. \<not> between (su_id su) f b) (db_balance d)\<rparr>"
    by (simp_all only: deleteFriend_fst deleteFriend_snd if_False)
  from False mirrored_outstanding [of "db_balance d" "su_id su" f]
  have "mirrored (db_balance d) \<longrightarrow>
          \<not> (\<exists>b \<in> set (db_balance d). between (su_id su) f b \<and> amount b \<noteq> 0)"
    by blast
  with False show ?thesis unfolding r s by simp
qed

theorem deleteFriend_outstanding_balance_witness:
  "mirrored (db_balance (mk_db [mk_balance 1 2 ''USD'' 20, mk_balance 2 1 ''USD'' (- 20)]))
   \<and> deleteFriend (mk_session 1) 2 (mk_db [mk_balance 1 2 ''USD'' 20, mk_balance 2 1 ''USD'' (- 20)])
     = (Inl (TRPCError BAD_REQUEST ''You have outstanding balances with this friend''),
        mk_db [mk_balance 1 2 ''USD'' 20, mk_balance 2 1 ''USD'' (- 20)])
   \<and> deleteFriend (mk_session 1) 2
       (mk_db [mk_balance 1 2 ''USD'' 0, mk_balance 2 1 ''USD'' 0, mk_balance 1 3 ''EUR'' 7,
               mk_balance 3 1 ''EUR'' (- 7)])
     = (Inr (), mk_db [mk_balance 1 3 ''EUR'' 7, mk_balance 3 1 ''EUR'' (- 7)])"
proof -
  let ?d1 = "mk_db [mk_balance 1 2 ''USD'' 20, mk_balance 2 1 ''USD'' (- 20)]"
  let ?d2 = "mk_db [mk_balance 1 2 ''USD'' 0, mk_balance 2 1 ''USD'' 0, mk_balance 1 3 ''EUR'' 7,
                    mk_balance 3 1 ''EUR'' (- 7)]"
  have m: "mirrored (db_balance ?d1)"
    by (simp add: mk_db_def mk_balance_def mirrored_def mirror_def)
  have o: "\<exists>b \<in> set (db_balance ?d1). between (su_id (mk_session 1)) 2 b \<and> amount b \<noteq> 0"
    by (simp add: mk_db_def mk_balance_def mk_session_def between_def)
  from deleteFriend_outstanding_balance [of "mk_session 1" 2 ?d1] m o
  have f1: "fst (deleteFriend (mk_session 1) 2 ?d1)
              = Inl (TRPCError BAD_REQUEST ''You have outstanding balances with this friend'')"
    by blast
  with deleteFriend_outstanding_balance [of "mk_session 1" 2 ?d1]
  have s1: "snd (deleteFriend (mk_session 1) 2 ?d1) = ?d1"
    by simp
  have z: "\<not> (\<exists>b \<in> set (db_balance ?d2). userId b = su_id (mk_session 1) \<and> friendId b = 2
                                            \<and> amount b \<noteq> 0)"
    by (simp add: mk_db_def mk_balance_def mk_session_def)
  from deleteFriend_outstanding_balance [of "mk_session 1" 2 ?d2] z
  have f2: "fst (deleteFriend (mk_session 1) 2 ?d2) = Inr ()"
    by blast
  with deleteFriend_outstanding_balance [of "mk_session 1" 2 ?d2]
  have "snd (deleteFriend (mk_session 1) 2 ?d2)
          = ?d2\<lparr>db_balance := filter (\<lambda>b. \<not> between (su_id (mk_session 1)) 2 b) (db_balance ?d2)\<rparr>"
    by blast
  then have s2: "snd (deleteFriend (mk_session 1) 2 ?d2)
                   = mk_db [mk_balance 1 3 ''EUR'' 7, mk_balance 3 1 ''EUR'' (- 7)]"
    by (simp add: mk_db_def mk_balance_def mk_session_def between_def)
  from m f1 s1 f2 s2 show ?thesis
    by (simp add: prod_eq_iff)
qed

section \<open>The mirrored-pair invariant of the ledger\<close>

lemma mirror_in: "mirrored tbl \<Longrightarrow> b \<in> set tbl \<Longrightarrow> mirror b \<in> set tbl"
  by (simp add: mirrored_iff)

lemma upsert_increment_present:
  "\<exists>b \<in> set tbl. userId b = u \<and> friendId b = f \<and> currency b = c \<Longrightarrow>
   upsert_increment u f c x tbl =
     map (\<lambda>b. if userId b = u \<and> friendId b = f \<and> currency b = c
              then b\<lparr>amount := amount b + x\<rparr> else b) tbl"
  unfolding upsert_increment_def by (rule if_P)

lemma upsert_increment_absent:
  "\<not> (\<exists>b \<in> set tbl. userId b = u \<and> friendId b = f \<and> currency b = c) \<Longrightarrow>
   upsert_increment u f c x tbl = tbl @ [\<lparr>userId = u, friendId = f, currency = c, amount = x\<rparr>]"
  unfolding upsert_increment_def by (rule if_not_P)

lemma map_mirrored:
  assumes "mirrored tbl" and "\<And>r. mirror (g r) = g (mirror r)"
  shows "mirrored (map g tbl)"
  unfolding mirrored_iff
proof
  fix r assume "r \<in> set (map g tbl)"
  then obtain r0 where r0: "r0 \<in> set tbl" "r = g r0" by auto
  from mirror_in [OF assms(1) r0(1)] have "g (mirror r0) \<in> set (map g tbl)" by simp
  then show "mirror r \<in> set (map g tbl)"
    unfolding r0(2) assms(2) .
qed

lemma write_pair_mirrored:
  assumes m: "mirrored tbl"
  shows "mirrored (write_pair payer p c x tbl)"
proof (cases "\<exists>b \<in> set tbl. userId b = payer \<and> friendId b = p \<and> currency b = c")
  case True
  then obtain b where b: "b \<in> set tbl" "userId b = payer" "friendId b = p" "currency b = c"
    by blast
  from mirror_in [OF m b(1)] b
  have ex2: "\<exists>b \<in> set tbl. userId b = p \<and> friendId b = payer \<and> currency b = c"
    by (intro bexI [of _ "mirror b"]) (simp_all add: mirror_def)
  let ?g1 = "\<lambda>b. if userId b = payer \<and> friendId b = p \<and> currency b = c
                   then b\<lparr>amount := amount b + x\<rparr> else b"
  let ?g2 = "\<lambda>b. if userId b = p \<and> friendId b = payer \<and> currency b = c
                   then b\<lparr>amount := amount b + - x\<rparr> else b"
  have t1: "upsert_increment payer p c x tbl = map ?g1 tbl"
    using True by (rule upsert_increment_present)
  from ex2 obtain b2 where b2: "b2 \<in> set tbl" "userId b2 = p" "friendId b2 = payer" "currency b2 = c"
    by blast
  have "?g1 b2 \<in> set (map ?g1 tbl)" using b2(1) by simp
  moreover have "userId (?g1 r) = userId r \<and> friendId (?g1 r) = friendId r
                   \<and> currency (?g1 r) = currency r" for r
    by simp
  then have "userId (?g1 b2) = p \<and> friendId (?g1 b2) = payer \<and> currency (?g1 b2) = c"
    unfolding b2(2-4) [symmetric] by blast
  ultimately have "\<exists>b \<in> set (map ?g1 tbl). userId b = p \<and> friendId b = payer \<and> currency b = c"
    by blast
  then have "upsert_increment p payer c (- x) (map ?g1 tbl) = map ?g2 (map ?g1 tbl)"
    by (rule upsert_increment_present)
  then have t2: "write_pair payer p c x tbl = map (?g2 \<circ> ?g1) tbl"
    unfolding write_pair_def t1 by (simp only: map_map)
  have comm: "mirror ((?g2 \<circ> ?g1) r) = (?g2 \<circ> ?g1) (mirror r)" for r
  proof (cases "p = payer")
    case True
    show ?thesis unfolding True by (auto simp: mirror_def)
  next
    case False
    then have "payer \<noteq> p" by blast
    with False show ?thesis
      by (cases "userId r = payer"; cases "friendId r = payer"; cases "userId r = p";
          cases "friendId r = p"; cases "currency r = c") (simp_all add: mirror_def)
  qed
  show ?thesis
    unfolding t2 using m comm by (rule map_mirrored)
next
  case False
  have no2: "\<not> (\<exists>b \<in> set tbl. userId b = p \<and> friendId b = payer \<and> currency b = c)"
  proof
    assume "\<exists>b \<in> set tbl. userId b = p \<and> friendId b = payer \<and> currency b = c"
    then obtain b where b: "b \<in> set tbl" "userId b = p" "friendId b = payer" "currency b = c"
      by blast
    from mirror_in [OF m b(1)] b False show False
      by (auto simp: mirror_def dest!: bspec [of _ _ "mirror b"])
  qed
  have t1: "upsert_increment payer p c x tbl
              = tbl @ [\<lparr>userId = payer, friendId = p, currency = c, amount = x\<rparr>]"
    using False by (rule upsert_increment_absent)
  show ?thesis
  proof (cases "p = payer")
    case True
    have "upsert_increment payer payer c (- x)
            (tbl @ [\<lparr>userId = payer, friendId = payer, currency = c, amount = x\<rparr>])
          = map (\<lambda>b. if userId b = payer \<and> friendId b = payer \<and> currency b = c
                       then b\<lparr>amount := amount b + - x\<rparr> else b)
              (tbl @ [\<lparr>userId = payer, friendId = payer, currency = c, amount = x\<rparr>])"
      by (rule upsert_increment_present) simp
    also have "\<dots> = tbl @ [\<lparr>userId = payer, friendId = payer, currency = c, amount = 0\<rparr>]"
      using False True by (auto intro!: map_idI)
    finally have "upsert_increment payer payer c (- x) (upsert_increment payer payer c x tbl)
              = tbl @ [\<lparr>userId = payer, friendId = payer, currency = c, amount = 0\<rparr>]"
      unfolding t1 [unfolded True] .
    then have t2: "write_pair payer p c x tbl
              = tbl @ [\<lparr>userId = payer, friendId = payer, currency = c, amount = 0\<rparr>]"
      unfolding write_pair_def True .
    show ?thesis unfolding t2 using m by (auto simp: mirrored_iff mirror_def)
  next
    case neq: False
    with no2 have "\<not> (\<exists>b \<in> set (tbl @ [\<lparr>userId = payer, friendId = p, currency = c, amount = x\<rparr>]).
                         userId b = p \<and> friendId b = payer \<and> currency b = c)"
      by auto
    then have "upsert_increment p payer c (- x)
                 (tbl @ [\<lparr>userId = payer, friendId = p, currency = c, amount = x\<rparr>])
               = (tbl @ [\<lparr>userId = payer, friendId = p, currency = c, amount = x\<rparr>])
                  @ [\<lparr>userId = p, friendId = payer, currency = c, amount = - x\<rparr>]"
      by (rule upsert_increment_absent)
    then have t2: "write_pair payer p c x tbl
              = tbl @ [\<lparr>userId = payer, friendId = p, currency = c, amount = x\<rparr>,
                       \<lparr>userId = p, friendId = payer, currency = c, amount = - x\<rparr>]"
      unfolding write_pair_def t1 by (simp only: append_assoc append.simps)
    show ?thesis unfolding t2 using m by (auto simp: mirrored_iff mirror_def)
  qed
qed

lemma applyExpenseDelta_mirrored:
  "mirrored tbl \<Longrightarrow> mirrored (applyExpenseDelta sign payer c ps tbl)"
  by (induction ps arbitrary: tbl) (auto simp: write_pair_mirrored)

lemma deleteFriend_mirrored:
  assumes "mirrored (db_balance d)"
  shows "mirrored (db_balance (snd (deleteFriend su f d)))"
proof -
  have "mirrored (filter (\<lambda>b. \<not> between u f b) tbl)" if "mirrored tbl" for u tbl
    using that by (auto simp: mirrored_iff between_def mirror_def)
  with assms show ?thesis
    by (simp add: deleteFriend_snd)
qed

lemma deleteExpense_mirrored:
  "mirrored (db_balance d) \<Longrightarrow> mirrored (db_balance (snd (deleteExpense su i d)))"
  by (auto simp: deleteExpense_def splitService_deleteExpense_def applyExpenseDelta_mirrored
      split: option.splits)

lemma createExpense_mirrored:
  "mirrored (db_balance d) \<Longrightarrow> mirrored (db_balance (createExpense e ps d))"
  by (simp add: createExpense_def applyExpenseDelta_mirrored)

lemma editExpense_mirrored:
  "mirrored (db_balance d) \<Longrightarrow> mirrored (db_balance (snd (editExpense e ps d)))"
  by (auto simp: editExpense_def applyExpenseDelta_mirrored split: option.splits)

lemma ledger_step_mirrored:
  "mirrored (db_balance d) \<Longrightarrow> mirrored (db_balance (ledger_step op d))"
  by (cases op)
     (simp_all add: createExpense_mirrored editExpense_mirrored deleteExpense_mirrored
        deleteFriend_mirrored settle_def)

lemma run_ledger_mirrored:
  "mirrored (db_balance d) \<Longrightarrow> mirrored (db_balance (run_ledger ops d))"
  unfolding run_ledger_def
  by (induction ops arbitrary: d) (simp_all add: ledger_step_mirrored)

text \<open>
  C1: after every sequence of ledger operations (creating, editing and deleting an
  expense, a settlement, deleting a friend) run from a store whose balance table is
  mirrored (the empty store is), every stored balance row (A, B, c) with amount x has
  its mirrored row (B, A, c) with amount -x.
\<close>

theorem run_ledger_mirrored_rows:
  "mirrored (db_balance d) \<Longrightarrow> b \<in> set (db_balance (run_ledger ops d)) \<Longrightarrow>
   \<exists>b' \<in> set (db_balance (run_ledger ops d)).
      userId b' = friendId b \<and> friendId b' = userId b \<and> currency b' = currency b
      \<and> amount b' = - amount b"
proof -
  assume "mirrored (db_balance d)" and b: "b \<in> set (db_balance (run_ledger ops d))"
  then have "mirror b \<in> set (db_balance (run_ledger ops d))"
    using run_ledger_mirrored mirror_in by blast
  then show ?thesis
    by (rule bexI [rotated]) (simp add: mirror_def)
qed

theorem run_ledger_mirrored_rows_witness:
  "mirrored (db_balance (mk_db []))
   \<and> db_balance (run_ledger [ExpenseCreate (ex_expense ''e1'' 1 10) [(1, 5), (2, 5)],
                             FriendDelete (mk_session 1) 2,
                             Settlement (ex_expense ''e2'' 2 3) 1] (mk_db []))
       = [mk_balance 1 2 ''USD'' 2, mk_balance 2 1 ''USD'' (- 2)]
   \<and> (\<exists>b' \<in> set (db_balance (run_ledger [ExpenseCreate (ex_expense ''e1'' 1 10) [(1, 5), (2, 5)],
                                          FriendDelete (mk_session 1) 2,
                                          Settlement (ex_expense ''e2'' 2 3) 1] (mk_db []))).
         userId b' = 2 \<and> friendId b' = 1 \<and> currency b' = ''USD'' \<and> amount b' = - 2)"
proof -
  let ?ops = "[ExpenseCreate (ex_expense ''e1'' 1 10) [(1, 5), (2, 5)],
               FriendDelete (mk_session 1) 2,
               Settlement (ex_expense ''e2'' 2 3) 1]"
  have h: "mirrored (db_balance (mk_db []))"
    by (simp add: mirrored_def mk_db_def)
  have r: "db_balance (run_ledger ?ops (mk_db []))
             = [mk_balance 1 2 ''USD'' 2, mk_balance 2 1 ''USD'' (- 2)]"
    by (simp add: run_ledger_def createExpense_def ex_expense_def mk_db_def mk_balance_def
        write_pair_def upsert_increment_def mk_session_def settle_def deleteFriend_def
        deleteMany_def findMany_def)
  then have i: "mk_balance 1 2 ''USD'' 2 \<in> set (db_balance (run_ledger ?ops (mk_db [])))"
    by simp
  from run_ledger_mirrored_rows [OF h i] h r show ?thesis
    by (simp add: mk_balance_def)
qed


section \<open>Deleting an expense\<close>

lemma findUnique_None: "findUnique P xs = None \<longleftrightarrow> \<not> (\<exists>x \<in> set xs. P x)"
  by (auto simp: findUnique_def find_None_iff)

lemma findUnique_Some: "findUnique P xs = Some x \<Longrightarrow> x \<in> set xs \<and> P x"
  by (auto simp: findUnique_def find_Some_iff)

lemma find_append_Some: "find P xs = Some x \<Longrightarrow> find P (xs @ ys) = Some x"
  by (induction xs) (auto split: if_splits)

lemma find_append_None: "find P xs = None \<Longrightarrow> find P (xs @ ys) = find P ys"
  by (induction xs) (auto split: if_splits)

lemma find_present: "\<exists>x \<in> set xs. P x \<Longrightarrow> \<exists>y. find P xs = Some y"
  by (cases "find P xs") (auto simp: find_None_iff)

lemma find_map_key:
  assumes "\<And>b. P (g b) = P b"
  shows "find P (map g tbl) = map_option g (find P tbl)"
  using assms by (induction tbl) simp_all

lemma balance_of_upsert_increment:
  "balance_of (upsert_increment u0 f0 c0 x tbl) u f c
     = balance_of tbl u f c + (if u = u0 \<and> f = f0 \<and> c = c0 then x else 0)"
proof (cases "\<exists>b \<in> set tbl. userId b = u0 \<and> friendId b = f0 \<and> currency b = c0")
  case True
  let ?g = "\<lambda>b. if userId b = u0 \<and> friendId b = f0 \<and> currency b = c0
                  then b\<lparr>amount := amount b + x\<rparr> else b"
  let ?P = "\<lambda>b. userId b = u \<and> friendId b = f \<and> currency b = c"
  have k: "?P (?g b) = ?P b" for b by simp
  have f: "find ?P (map ?g tbl) = map_option ?g (find ?P tbl)"
    using k by (rule find_map_key)
  show ?thesis
  proof (cases "find ?P tbl")
    case None
    with True have "\<not> (u = u0 \<and> f = f0 \<and> c = c0)"
      by (auto simp: find_None_iff)
    with None show ?thesis
      unfolding balance_of_def upsert_increment_present [OF True] f by auto
  next
    case (Some b)
    then have "?P b" by (auto simp: find_Some_iff)
    with Some show ?thesis
      unfolding balance_of_def upsert_increment_present [OF True] f by auto
  qed
next
  case False
  let ?P = "\<lambda>b. userId b = u \<and> friendId b = f \<and> currency b = c"
  show ?thesis
  proof (cases "find ?P tbl")
    case None
    from find_append_None [OF None, of "[\<lparr>userId = u0, friendId = f0, currency = c0, amount = x\<rparr>]"]
      None
    show ?thesis
      unfolding balance_of_def upsert_increment_absent [OF False] by auto
  next
    case (Some b)
    then have "b \<in> set tbl" "?P b" by (auto simp: find_Some_iff in_set_conv_nth)
    with False have "\<not> (u = u0 \<and> f = f0 \<and> c = c0)" by auto
    with find_append_Some [OF Some, of "[\<lparr>userId = u0, friendId = f0, currency = c0, amount = x\<rparr>]"]
      Some
    show ?thesis
      unfolding balance_of_def upsert_increment_absent [OF False] by auto
  qed
qed

lemma balance_of_write_pair:
  "balance_of (write_pair payer p c x tbl) u f c'
     = balance_of tbl u f c'
       + (if u = payer \<and> f = p \<and> c' = c then x else 0)
       - (if u = p \<and> f = payer \<and> c' = c then x else 0)"
  by (simp add: write_pair_def balance_of_upsert_increment)

lemma balance_of_applyExpenseDelta:
  "balance_of (applyExpenseDelta sign payer c ps tbl) u f c'
     = balance_of tbl u f c' + sign * contribution payer c ps u f c'"
proof (induction ps arbitrary: tbl)
  case Nil
  then show ?case by (simp add: contribution_def)
next
  case (Cons a ps)
  obtain p share where a: "a = (p, share)" by (cases a)
  show ?case
  proof (cases "p = payer")
    case True
    have "contribution payer c (a # ps) u f c' = contribution payer c ps u f c'"
      by (simp add: contribution_def a True)
    then show ?thesis
      unfolding a True applyExpenseDelta.simps using Cons.IH by simp
  next
    case False
    define A where "A = (u = payer \<and> f = p)"
    define B where "B = (u = p \<and> f = payer)"
    define C where "C = (c' = c)"
    have w: "balance_of (write_pair payer p c (sign * share) tbl) u f c'
               = balance_of tbl u f c' + (if A \<and> C then sign * share else 0)
                 - (if B \<and> C then sign * share else 0)"
      unfolding balance_of_write_pair A_def B_def C_def by (simp only: conj_assoc)
    have c: "contribution payer c (a # ps) u f c'
               = (if \<not> C then 0 else (if A then share else 0) - (if B then share else 0))
                 + contribution payer c ps u f c'"
      using False unfolding contribution_def a A_def B_def C_def by simp
    have "balance_of (applyExpenseDelta sign payer c (a # ps) tbl) u f c'
            = balance_of (write_pair payer p c (sign * share) tbl) u f c'
              + sign * contribution payer c ps u f c'"
      unfolding a using False Cons.IH by simp
    also have "\<dots> = balance_of tbl u f c' + sign * contribution payer c (a # ps) u f c'"
      unfolding w c by (cases A; cases B; cases C) (simp_all add: algebra_simps)
    finally show ?thesis .
  qed
qed

lemma createExpense_balance_of:
  "balance_of (db_balance (createExpense e ps d)) u f c
     = balance_of (db_balance d) u f c + contribution (paidBy e) (e_currency e) ps u f c"
  by (simp add: createExpense_def balance_of_applyExpenseDelta)

lemma participant_expense:
  "\<exists>p \<in> set (db_expenseParticipant d). ep_expenseId p = i \<and> Q p \<Longrightarrow>
   \<exists>e \<in> set (db_expense d). e_id e = i"
  by (auto simp: db_expenseParticipant_def)

lemma splitService_deleteExpense_not_unauthorized:
  "fst (splitService_deleteExpense i u d) \<noteq> Inl (TRPCError UNAUTHORIZED m)"
  by (simp add: splitService_deleteExpense_def split: option.splits)

lemma splitService_deleteExpense_failure:
  "fst (splitService_deleteExpense i u d) = Inl err \<Longrightarrow> snd (splitService_deleteExpense i u d) = d"
  by (simp add: splitService_deleteExpense_def split: option.splits if_splits)

lemma find_map_mark:
  "find (\<lambda>x. e_id x = i) xs = Some e \<Longrightarrow>
   find (\<lambda>x. e_id x = i) (map (\<lambda>x. if e_id x = i then x\<lparr>deletedBy := v\<rparr> else x) xs)
     = Some (e\<lparr>deletedBy := v\<rparr>)"
proof -
  assume e: "find (\<lambda>x. e_id x = i) xs = Some e"
  have "find (\<lambda>x. e_id x = i) (map (\<lambda>x. if e_id x = i then x\<lparr>deletedBy := v\<rparr> else x) xs)
          = map_option (\<lambda>x. if e_id x = i then x\<lparr>deletedBy := v\<rparr> else x) (find (\<lambda>x. e_id x = i) xs)"
    by (rule find_map_key) simp
  moreover from e have "e_id e = i" by (auto simp: find_Some_iff)
  ultimately show ?thesis by (simp add: e)
qed

lemma deleteExpense_cases:
  "(fst (deleteExpense su i d)
      = Inl (TRPCError UNAUTHORIZED ''You are not the participant of the expense'')
     \<longleftrightarrow> \<not> (\<exists>p \<in> set (db_expenseParticipant d). ep_expenseId p = i \<and> ep_userId p = su_id su))
   \<and> ((\<exists>err. fst (deleteExpense su i d) = Inl err) \<longrightarrow> snd (deleteExpense su i d) = d)
   \<and> ((\<exists>p \<in> set (db_expenseParticipant d). ep_expenseId p = i \<and> ep_userId p = su_id su) \<longrightarrow>
       fst (deleteExpense su i d) = Inr ()
       \<and> (\<exists>e e'. findUnique (\<lambda>x. e_id x = i) (db_expense d) = Some e
             \<and> findUnique (\<lambda>x. e_id x = i) (db_expense (snd (deleteExpense su i d))) = Some e'
             \<and> deletedBy e' \<noteq> None
             \<and> e' = e\<lparr>deletedBy := deletedBy e'\<rparr>
             \<and> (deletedBy e = None \<longrightarrow>
                  deletedBy e' = Some (su_id su)
                  \<and> (\<forall>u f c. balance_of (db_balance (snd (deleteExpense su i d))) u f c
                               = balance_of (db_balance d) u f c
                                 - contribution (paidBy e) (e_currency e) (expenseParticipants e) u f c))
             \<and> (deletedBy e \<noteq> None \<longrightarrow> snd (deleteExpense su i d) = d)))"
proof (cases "\<exists>p \<in> set (db_expenseParticipant d). ep_expenseId p = i \<and> ep_userId p = su_id su")
  case False
  then have "findUnique (\<lambda>p. ep_expenseId p = i \<and> ep_userId p = su_id su) (db_expenseParticipant d) = None"
    by (simp only: findUnique_None not_False_eq_True)
  then have "deleteExpense su i d
       = (Inl (TRPCError UNAUTHORIZED ''You are not the participant of the expense''), d)"
    by (simp add: deleteExpense_def)
  with False show ?thesis by simp
next
  case True
  then obtain p where "findUnique (\<lambda>p. ep_expenseId p = i \<and> ep_userId p = su_id su)
                          (db_expenseParticipant d) = Some p"
    using findUnique_None [of "\<lambda>p. ep_expenseId p = i \<and> ep_userId p = su_id su" "db_expenseParticipant d"]
    by (cases "findUnique (\<lambda>p. ep_expenseId p = i \<and> ep_userId p = su_id su) (db_expenseParticipant d)")
       blast+
  then have eq: "deleteExpense su i d = splitService_deleteExpense i (su_id su) d"
    by (simp add: deleteExpense_def)
  have a: "fst (deleteExpense su i d)
             \<noteq> Inl (TRPCError UNAUTHORIZED ''You are not the participant of the expense'')"
    unfolding eq by (rule splitService_deleteExpense_not_unauthorized)
  have b: "(\<exists>err. fst (deleteExpense su i d) = Inl err) \<longrightarrow> snd (deleteExpense su i d) = d"
    unfolding eq using splitService_deleteExpense_failure by blast
  from participant_expense [OF True] obtain e where
    e: "findUnique (\<lambda>x. e_id x = i) (db_expense d) = Some e"
    using findUnique_None [of "\<lambda>x. e_id x = i" "db_expense d"]
    by (cases "findUnique (\<lambda>x. e_id x = i) (db_expense d)") blast+
  have c: "fst (deleteExpense su i d) = Inr ()
       \<and> (\<exists>e e'. findUnique (\<lambda>x. e_id x = i) (db_expense d) = Some e
             \<and> findUnique (\<lambda>x. e_id x = i) (db_expense (snd (deleteExpense su i d))) = Some e'
             \<and> deletedBy e' \<noteq> None
             \<and> e' = e\<lparr>deletedBy := deletedBy e'\<rparr>
             \<and> (deletedBy e = None \<longrightarrow>
                  deletedBy e' = Some (su_id su)
                  \<and> (\<forall>u f c. balance_of (db_balance (snd (deleteExpense su i d))) u f c
                               = balance_of (db_balance d) u f c
                                 - contribution (paidBy e) (e_currency e) (expenseParticipants e) u f c))
             \<and> (deletedBy e \<noteq> None \<longrightarrow> snd (deleteExpense su i d) = d))"
  proof (cases "deletedBy e")
    case None
    from e None have r: "splitService_deleteExpense i (su_id su) d =
        (Inr (),
         d\<lparr>db_expense := map (\<lambda>x. if e_id x = i then x\<lparr>deletedBy := Some (su_id su)\<rparr> else x)
                             (db_expense d),
           db_balance := applyExpenseDelta (- 1) (paidBy e) (e_currency e)
                           (expenseParticipants e) (db_balance d)\<rparr>)"
      by (simp add: splitService_deleteExpense_def)
    from e have "findUnique (\<lambda>x. e_id x = i)
                   (map (\<lambda>x. if e_id x = i then x\<lparr>deletedBy := Some (su_id su)\<rparr> else x) (db_expense d))
                 = Some (e\<lparr>deletedBy := Some (su_id su)\<rparr>)"
      unfolding findUnique_def by (rule find_map_mark)
    with e None show ?thesis
      unfolding eq r by (simp add: balance_of_applyExpenseDelta)
  next
    case (Some v)
    with e have r: "splitService_deleteExpense i (su_id su) d = (Inr (), d)"
      by (simp add: splitService_deleteExpense_def)
    from e Some show ?thesis unfolding eq r by simp
  qed
  from True a b c show ?thesis by blast
qed



lemma createExpense_then_delete:
  assumes fresh: "\<not> (\<exists>x \<in> set (db_expense d0). e_id x = e_id e)"
    and part: "su_id su \<in> fst ` set ps"
  shows "fst (deleteExpense su (e_id e) (createExpense e ps d0)) = Inr ()
         \<and> (\<forall>u f c. balance_of (db_balance (snd (deleteExpense su (e_id e) (createExpense e ps d0)))) u f c
                      = balance_of (db_balance d0) u f c)"
proof -
  let ?d = "createExpense e ps d0"
  let ?e = "e\<lparr>deletedBy := None, expenseParticipants := ps\<rparr>"
  have es: "db_expense ?d = db_expense d0 @ [?e]" by (simp add: createExpense_def)
  from fresh have "find (\<lambda>x. e_id x = e_id e) (db_expense d0) = None"
    by (auto simp: find_None_iff)
  from find_append_None [OF this, of "[?e]"]
  have f: "findUnique (\<lambda>x. e_id x = e_id e) (db_expense ?d) = Some ?e"
    by (simp add: findUnique_def es)
  from part obtain s where "(su_id su, s) \<in> set ps" by auto
  then have p: "\<exists>p \<in> set (db_expenseParticipant ?d).
                  ep_expenseId p = e_id e \<and> ep_userId p = su_id su"
    by (force simp: db_expenseParticipant_def es)
  from deleteExpense_cases
         [of su "e_id e" ?d, THEN conjunct2, THEN conjunct2, THEN mp, OF p]
  obtain x where r: "fst (deleteExpense su (e_id e) ?d) = Inr ()"
    and x: "findUnique (\<lambda>x. e_id x = e_id e) (db_expense ?d) = Some x"
    and live: "deletedBy x = None \<longrightarrow>
                 (\<forall>u f c. balance_of (db_balance (snd (deleteExpense su (e_id e) ?d))) u f c
                       = balance_of (db_balance ?d) u f c
                         - contribution (paidBy x) (e_currency x) (expenseParticipants x) u f c)"
    by (elim conjE exE) (rule that, assumption+, blast)
  from x f have "x = ?e" by simp
  with live have "balance_of (db_balance (snd (deleteExpense su (e_id e) ?d))) u f c
                       = balance_of (db_balance ?d) u f c
                         - contribution (paidBy e) (e_currency e) ps u f c" for u f c
    by simp
  with r show ?thesis by (simp add: createExpense_balance_of)
qed


text \<open>
  C5: deleteExpense fails with the UNAUTHORIZED error exactly when the acting user has
  no participant row for the expense; whenever it fails, the store (the expense and
  all balance rows) is unchanged.  Otherwise it succeeds and the expense is
  soft-deleted: its row stays, with the deleting user recorded and nothing else
  changed.  If the expense was live, the acting user is the one recorded and every
  balance moves back by exactly what the expense contributed to it; if it was
  soft-deleted already, the call changes nothing.  The contribution is what creating
  the expense had added: deleting an expense just created, by one of its participants,
  returns every balance to what it was before the creation.
\<close>

theorem deleteExpense_participant_only:
  "(fst (deleteExpense su i d)
      = Inl (TRPCError UNAUTHORIZED ''You are not the participant of the expense'')
     \<longleftrightarrow> \<not> (\<exists>p \<in> set (db_expenseParticipant d). ep_expenseId p = i \<and> ep_userId p = su_id su))
   \<and> ((\<exists>err. fst (deleteExpense su i d) = Inl err) \<longrightarrow> snd (deleteExpense su i d) = d)
   \<and> ((\<exists>p \<in> set (db_expenseParticipant d). ep_expenseId p = i \<and> ep_userId p = su_id su) \<longrightarrow>
       fst (deleteExpense su i d) = Inr ()
       \<and> (\<exists>e e'. findUnique (\<lambda>x. e_id x = i) (db_expense d) = Some e
             \<and> findUnique (\<lambda>x. e_id x = i) (db_expense (snd (deleteExpense su i d))) = Some e'
             \<and> deletedBy e' \<noteq> None
             \<and> e' = e\<lparr>deletedBy := deletedBy e'\<rparr>
             \<and> (deletedBy e = None \<longrightarrow>
                  deletedBy e' = Some (su_id su)
                  \<and> (\<forall>u f c. balance_of (db_balance (snd (deleteExpense su i d))) u f c
                               = balance_of (db_balance d) u f c
                                 - contribution (paidBy e) (e_currency e) (expenseParticipants e) u f c))
             \<and> (deletedBy e \<noteq> None \<longrightarrow> snd (deleteExpense su i d) = d)))
   \<and> (\<forall>e ps d0. d = createExpense e ps d0 \<and> i = e_id e
          \<and> \<not> (\<exists>x \<in> set (db_expense d0). e_id x = i) \<and> su_id su \<in> fst ` set ps \<longrightarrow>
        (\<forall>u f c. balance_of (db_balance (snd (deleteExpense su i d))) u f c
                   = balance_of (db_balance d0) u f c))"
proof -
  have "\<forall>u f c. balance_of (db_balance (snd (deleteExpense su i d))) u f c
                  = balance_of (db_balance d0) u f c"
    if "d = createExpense e ps d0" "i = e_id e"
      "\<not> (\<exists>x \<in> set (db_expense d0). e_id x = i)" "su_id su \<in> fst ` set ps" for e ps d0
    using createExpense_then_delete [of d0 e su ps] that by simp
  with deleteExpense_cases [of su i d] show ?thesis by blast
qed

theorem deleteExpense_participant_only_witness:
  "deleteExpense (mk_session 3) ''e1'' ex_store
     = (Inl (TRPCError UNAUTHORIZED ''You are not the participant of the expense''), ex_store)
   \<and> db_balance ex_store = [mk_balance 1 2 ''USD'' 25, mk_balance 2 1 ''USD'' (- 25)]
   \<and> fst (deleteExpense (mk_session 2) ''e1'' ex_store) = Inr ()
   \<and> balance_of (db_balance (snd (deleteExpense (mk_session 2) ''e1'' ex_store))) 1 2 ''USD'' = 20
   \<and> balance_of (db_balance (snd (deleteExpense (mk_session 2) ''e1'' ex_store))) 2 1 ''USD'' = - 20
   \<and> deleteExpense (mk_session 1) ''e1'' (snd (deleteExpense (mk_session 2) ''e1'' ex_store))
       = (Inr (), snd (deleteExpense (mk_session 2) ''e1'' ex_store))
   \<and> (\<forall>u f c. balance_of (db_balance (snd (deleteExpense (mk_session 2) ''e1'' ex_store))) u f c
          = balance_of [mk_balance 1 2 ''USD'' 20, mk_balance 2 1 ''USD'' (- 20)] u f c)"
proof -
  let ?e = "\<lparr>e_id = ''e1'', paidBy = 1, e_currency = ''USD'', e_amount = 10, deletedBy = None,
             expenseParticipants = [(1, 5), (2, 5)]\<rparr>"
  have es: "db_expense ex_store = [?e]"
    and bs: "db_balance ex_store = [mk_balance 1 2 ''USD'' 25, mk_balance 2 1 ''USD'' (- 25)]"
    by (simp_all add: ex_store_def createExpense_def ex_expense_def mk_db_def mk_balance_def
        write_pair_def upsert_increment_def)
  have ps: "db_expenseParticipant ex_store
              = [\<lparr>ep_expenseId = ''e1'', ep_userId = 1, ep_amount = 5\<rparr>,
                 \<lparr>ep_expenseId = ''e1'', ep_userId = 2, ep_amount = 5\<rparr>]"
    by (simp add: db_expenseParticipant_def es)
  have n3: "\<not> (\<exists>p \<in> set (db_expenseParticipant ex_store).
                  ep_expenseId p = ''e1'' \<and> ep_userId p = su_id (mk_session 3))"
    by (simp add: ps mk_session_def)
  from deleteExpense_participant_only [of "mk_session 3" "''e1''" ex_store, THEN conjunct1] n3
  have f3: "fst (deleteExpense (mk_session 3) ''e1'' ex_store)
              = Inl (TRPCError UNAUTHORIZED ''You are not the participant of the expense'')"
    by blast
  with deleteExpense_participant_only
         [of "mk_session 3" "''e1''" ex_store, THEN conjunct2, THEN conjunct1]
  have s3: "snd (deleteExpense (mk_session 3) ''e1'' ex_store) = ex_store"
    by blast
  let ?d2 = "snd (deleteExpense (mk_session 2) ''e1'' ex_store)"
  have p2: "\<exists>p \<in> set (db_expenseParticipant ex_store).
              ep_expenseId p = ''e1'' \<and> ep_userId p = su_id (mk_session 2)"
    by (simp add: ps mk_session_def)
  from deleteExpense_participant_only
         [of "mk_session 2" "''e1''" ex_store, THEN conjunct2, THEN conjunct2, THEN conjunct1, THEN mp,
          OF p2]
  obtain e e' where f2: "fst (deleteExpense (mk_session 2) ''e1'' ex_store) = Inr ()"
    and e: "findUnique (\<lambda>x. e_id x = ''e1'') (db_expense ex_store) = Some e"
    and e': "findUnique (\<lambda>x. e_id x = ''e1'') (db_expense ?d2) = Some e'"
    and live: "deletedBy e = None \<longrightarrow>
                 deletedBy e' = Some (su_id (mk_session 2))
                 \<and> (\<forall>u f c. balance_of (db_balance ?d2) u f c
                       = balance_of (db_balance ex_store) u f c
                         - contribution (paidBy e) (e_currency e) (expenseParticipants e) u f c)"
    by (elim conjE exE) (rule that)
  from e have e1: "e = ?e" by (simp add: es findUnique_def)
  from live have b: "balance_of (db_balance ?d2) u f c
                       = balance_of (db_balance ex_store) u f c
                         - contribution 1 ''USD'' [(1, 5), (2, 5)] u f c" for u f c
    by (simp add: e1)
  have b12: "balance_of (db_balance ?d2) 1 2 ''USD'' = 20"
    and b21: "balance_of (db_balance ?d2) 2 1 ''USD'' = - 20"
    unfolding b by (simp_all add: bs balance_of_def contribution_def mk_balance_def)
  from live have m: "deletedBy e' = Some 2" by (simp add: e1 mk_session_def)
  from e' have in2: "e' \<in> set (db_expense ?d2)" and id2: "e_id e' = ''e1''"
    using findUnique_Some by fastforce+
  have p1: "\<exists>p \<in> set (db_expenseParticipant ?d2).
              ep_expenseId p = ''e1'' \<and> ep_userId p = su_id (mk_session 1)"
  proof -
    have "?d2 = snd (splitService_deleteExpense ''e1'' 2 ex_store)"
      by (simp add: deleteExpense_def findUnique_def ps mk_session_def)
    then have "db_expense ?d2 = [?e\<lparr>deletedBy := Some 2\<rparr>]"
      by (simp add: splitService_deleteExpense_def findUnique_def es)
    then show ?thesis
      by (simp add: db_expenseParticipant_def mk_session_def)
  qed
  from deleteExpense_participant_only
         [of "mk_session 1" "''e1''" ?d2, THEN conjunct2, THEN conjunct2, THEN conjunct1, THEN mp,
          OF p1]
  obtain x where f1: "fst (deleteExpense (mk_session 1) ''e1'' ?d2) = Inr ()"
    and x: "findUnique (\<lambda>x. e_id x = ''e1'') (db_expense ?d2) = Some x"
    and noop: "deletedBy x \<noteq> None \<longrightarrow> snd (deleteExpense (mk_session 1) ''e1'' ?d2) = ?d2"
    by (elim conjE exE) (rule that)
  from x e' m have "deletedBy x \<noteq> None" by simp
  with noop have s1: "snd (deleteExpense (mk_session 1) ''e1'' ?d2) = ?d2" by blast
  have rt: "ex_store = createExpense (ex_expense ''e1'' 1 10) [(1, 5), (2, 5)]
                         (mk_db [mk_balance 1 2 ''USD'' 20, mk_balance 2 1 ''USD'' (- 20)])
            \<and> ''e1'' = e_id (ex_expense ''e1'' 1 10)
            \<and> \<not> (\<exists>x \<in> set (db_expense (mk_db [mk_balance 1 2 ''USD'' 20,
                                                  mk_balance 2 1 ''USD'' (- 20)])). e_id x = ''e1'')
            \<and> su_id (mk_session 2) \<in> fst ` set [(1, 5), (2, 5 :: int)]"
    by (simp add: ex_store_def ex_expense_def mk_db_def mk_session_def)
  from deleteExpense_participant_only
         [of "mk_session 2" "''e1''" ex_store, THEN conjunct2, THEN conjunct2, THEN conjunct2,
          THEN spec, THEN spec, THEN spec, THEN mp, OF rt]
  have restored: "\<forall>u f c. balance_of (db_balance ?d2) u f c
                = balance_of [mk_balance 1 2 ''USD'' 20, mk_balance 2 1 ''USD'' (- 20)] u f c"
    by (simp add: mk_db_def)
  from f3 s3 bs f2 b12 b21 f1 s1 restored show ?thesis
    by (simp add: prod_eq_iff)
qed

section \<open>Inviting a friend: an existing user or one new user\<close>

lemma js_split_nonempty: "js_split sep s \<noteq> []"
  by (induction s) (auto split: list.splits)

lemma js_split_hd: "hd (js_split sep s) = takeWhile (\<lambda>c. c \<noteq> sep) s"
  by (induction s) (auto split: list.splits simp: js_split_nonempty)

lemma js_split_first: "js_index (js_split sep s) 0 = Some (takeWhile (\<lambda>c. c \<noteq> sep) s)"
  using js_split_nonempty [of sep s] js_split_hd [of sep s]
  by (cases "js_split sep s") (simp_all add: js_index_def)

lemma takeWhile_before: "sep \<notin> set l \<Longrightarrow> takeWhile (\<lambda>c. c \<noteq> sep) (l @ sep # r) = l"
  by (induction l) auto

text \<open>
  C9: when a user with the given email is stored, inviteFriend returns a stored user
  with that email and leaves the store (so the user table) as it was; otherwise it
  adds exactly one user row, which it returns, whose email is the given address and
  whose name is the address up to its first '@' (the whole address when it has none):
  the part before the '@'.
\<close>

theorem inviteFriend_existing_or_new:
  "((\<exists>u \<in> set (db_user d). email u = e) \<longrightarrow>
      (\<exists>u \<in> set (db_user d). email u = e \<and> inviteFriend su e s d = (Inr u, d)))
   \<and> (\<not> (\<exists>u \<in> set (db_user d). email u = e) \<longrightarrow>
      (\<exists>u. fst (inviteFriend su e s d) = Inr u
         \<and> db_user (snd (inviteFriend su e s d)) = db_user d @ [u]
         \<and> email u = e
         \<and> name u = Some (takeWhile (\<lambda>c. c \<noteq> CHR ''@'') e)
         \<and> (\<forall>l r. e = l @ CHR ''@'' # r \<and> CHR ''@'' \<notin> set l \<longrightarrow> name u = Some l)))"
proof (cases "\<exists>u \<in> set (db_user d). email u = e")
  case True
  then obtain u where u: "findUnique (\<lambda>u. email u = e) (db_user d) = Some u"
    using findUnique_None [of "\<lambda>u. email u = e" "db_user d"]
    by (cases "findUnique (\<lambda>u. email u = e) (db_user d)") blast+
  then have "inviteFriend su e s d = (Inr u, d)"
    by (simp add: inviteFriend_def)
  with findUnique_Some [OF u] True show ?thesis by blast
next
  case False
  then have n: "findUnique (\<lambda>u. email u = e) (db_user d) = None"
    by (simp only: findUnique_None not_False_eq_True)
  let ?u = "\<lparr>user_id = user_seq d, email = e, name = Some (takeWhile (\<lambda>c. c \<noteq> CHR ''@'') e)\<rparr>"
  have "fst (inviteFriend su e s d) = Inr ?u"
    and "db_user (snd (inviteFriend su e s d)) = db_user d @ [?u]"
    by (simp_all add: inviteFriend_def n user_create_def js_split_first Let_def)
  moreover have "\<forall>l r. e = l @ CHR ''@'' # r \<and> CHR ''@'' \<notin> set l \<longrightarrow> name ?u = Some l"
    by (auto simp: takeWhile_before)
  ultimately show ?thesis using False by auto
qed

theorem inviteFriend_existing_or_new_witness:
  "inviteFriend (mk_session 7) ''ann@x.org'' None ex_users
     = (Inr \<lparr>user_id = 1, email = ''ann@x.org'', name = Some ''Ann''\<rparr>, ex_users)
   \<and> fst (inviteFriend (mk_session 7) ''bob@y.org'' None ex_users)
       = Inr \<lparr>user_id = 2, email = ''bob@y.org'', name = Some ''bob''\<rparr>
   \<and> db_user (snd (inviteFriend (mk_session 7) ''bob@y.org'' None ex_users))
       = [\<lparr>user_id = 1, email = ''ann@x.org'', name = Some ''Ann''\<rparr>,
          \<lparr>user_id = 2, email = ''bob@y.org'', name = Some ''bob''\<rparr>]"
proof -
  have us: "db_user ex_users = [\<lparr>user_id = 1, email = ''ann@x.org'', name = Some ''Ann''\<rparr>]"
    by (simp add: ex_users_def mk_db_def)
  have a: "\<exists>u \<in> set (db_user ex_users). email u = ''ann@x.org''"
    by (simp add: us)
  from inviteFriend_existing_or_new [of ex_users "''ann@x.org''" "mk_session 7" None] a
  obtain u where "u \<in> set (db_user ex_users)"
    and r1: "inviteFriend (mk_session 7) ''ann@x.org'' None ex_users = (Inr u, ex_users)"
    by blast
  then have u: "u = \<lparr>user_id = 1, email = ''ann@x.org'', name = Some ''Ann''\<rparr>"
    by (simp add: us)
  have b: "\<not> (\<exists>u \<in> set (db_user ex_users). email u = ''bob@y.org'')"
    by (simp add: us)
  from inviteFriend_existing_or_new [of ex_users "''bob@y.org''" "mk_session 7" None] b
  obtain v where f2: "fst (inviteFriend (mk_session 7) ''bob@y.org'' None ex_users) = Inr v"
    and s2: "db_user (snd (inviteFriend (mk_session 7) ''bob@y.org'' None ex_users))
               = db_user ex_users @ [v]"
    and e2: "email v = ''bob@y.org''"
    and n2: "\<forall>l r. ''bob@y.org'' = l @ CHR ''@'' # r \<and> CHR ''@'' \<notin> set l \<longrightarrow> name v = Some l"
    by blast
  from n2 [rule_format, of "''bob''" "''y.org''"] have n: "name v = Some ''bob''"
    by simp
  have "fst (inviteFriend (mk_session 7) ''bob@y.org'' None ex_users)
          = Inr \<lparr>user_id = 2, email = ''bob@y.org'', name = Some ''bob''\<rparr>"
    by (simp add: inviteFriend_def findUnique_def us user_create_def js_index_def ex_users_def
        mk_db_def Let_def)
  with f2 have v: "v = \<lparr>user_id = 2, email = ''bob@y.org'', name = Some ''bob''\<rparr>"
    by simp
  from r1 f2 s2 show ?thesis
    unfolding u v us by simp
qed

section \<open>shuffleArray permutes the array\<close>

lemma bit_length_0: "bit_length 0 = 0"
  by (simp add: bit_length.simps)

lemma bit_length_pos: "0 < n \<Longrightarrow> bit_length n = Suc (bit_length (n div 2))"
  by (simp add: bit_length.simps [of n])

lemma bit_length_bounds: "n \<noteq> 0 \<Longrightarrow> 2 ^ (bit_length n - 1) \<le> n \<and> n < 2 ^ bit_length n"
proof (induction n rule: bit_length.induct)
  case (1 n)
  show ?case
  proof (cases "n div 2 = 0")
    case True
    with 1 have "n = 1" by (auto simp: div_eq_0_iff)
    then show ?thesis by (simp add: bit_length_0 bit_length_pos)
  next
    case False
    from 1 have b: "bit_length n = Suc (bit_length (n div 2))"
      by (simp add: bit_length_pos)
    from False have pos: "bit_length (n div 2) \<noteq> 0" by (simp add: bit_length_pos)
    from 1 False have IH: "2 ^ (bit_length (n div 2) - 1) \<le> n div 2" "n div 2 < 2 ^ bit_length (n div 2)"
      by auto
    from pos obtain j where j: "bit_length (n div 2) = Suc j" by (cases "bit_length (n div 2)") auto
    from IH have "2 * 2 ^ j \<le> n" "n < 2 * 2 ^ Suc j" unfolding j by auto
    then show ?thesis unfolding b j by simp
  qed
qed

lemma round_half_even_upper: "0 < k \<Longrightarrow> round_half_even p k * 2 ^ k \<le> p + 2 ^ (k - 1)"
proof -
  assume k: "0 < k"
  then obtain j where j: "k = Suc j" by (cases k) auto
  define q where "q = p div 2 ^ k"
  define r where "r = p mod 2 ^ k"
  have p: "p = q * 2 ^ k + r" unfolding q_def r_def by (rule div_mult_mod_eq [symmetric])
  have r: "r < 2 ^ k" by (simp add: r_def)
  have h: "(2::nat) ^ k = 2 * 2 ^ (k - 1)" by (simp add: j)
  have "round_half_even p k \<le> (if r < 2 ^ (k - 1) then q else q + 1)"
    by (simp add: round_half_even_def Let_def q_def r_def)
  then have "round_half_even p k * 2 ^ k \<le> (if r < 2 ^ (k - 1) then q else q + 1) * 2 ^ k"
    by simp
  also have "\<dots> \<le> p + 2 ^ (k - 1)"
    using r h by (auto simp: p algebra_simps)
  finally show ?thesis .
qed

lemma random_index_bound:
  assumes u: "unit_double x" and n: "0 < n"
  shows "Math_floor (times_index x n) < n"
proof -
  obtain m e where x: "x = (m, e)" by (cases x)
  from u have m53: "m < 2 ^ 53" and me: "m = 0 \<or> (e < 0 \<and> m < 2 ^ nat (- e))"
    by (simp_all add: unit_double_def x)
  show ?thesis
  proof (cases "m = 0")
    case True
    with n show ?thesis by (simp add: x times_index_def Math_floor_def)
  next
    case False
    with me have e: "e < 0" and mE: "m < 2 ^ nat (- e)" by auto
    define E where "E = nat (- e)"
    from e have eE: "e = - int E" by (simp add: E_def)
    from mE have mE': "m < 2 ^ E" by (simp add: E_def)
    then have mn: "m * n < n * 2 ^ E" using n by simp
    show ?thesis
    proof (cases "m * n < 2 ^ 53")
      case True
      from mn have "m * n div 2 ^ E < n"
        by (simp add: less_mult_imp_div_less)
      with True e show ?thesis
        by (simp add: x times_index_def Math_floor_def E_def)
    next
      case big: False
      define p where "p = m * n"
      define k where "k = bit_length p - 53"
      define M where "M = round_half_even p k"
      from big have p53: "2 ^ 53 \<le> p" by (simp add: p_def)
      then have p0: "p \<noteq> 0" by auto
      from bit_length_bounds [OF p0] have lo: "2 ^ (bit_length p - 1) \<le> p" and hi: "p < 2 ^ bit_length p"
        by auto
      have bl: "53 < bit_length p"
      proof (rule ccontr)
        assume "\<not> 53 < bit_length p"
        then have "(2::nat) ^ bit_length p \<le> 2 ^ 53" by (intro power_increasing) auto
        with hi p53 show False by simp
      qed
      then have k0: "0 < k" and blk: "bit_length p - 1 = 52 + k" by (simp_all add: k_def)
      from lo have lo': "2 ^ 52 * 2 ^ k \<le> p" unfolding blk by (simp add: power_add)
      have "2 ^ 53 * 2 ^ (k - 1) = (2::nat) ^ 52 * 2 ^ k"
        using k0 by (cases k) simp_all
      also have "\<dots> \<le> m * n" using lo' by (simp add: p_def)
      also have "\<dots> < 2 ^ 53 * n" using m53 n by simp
      finally have nk: "2 ^ (k - 1) < n" by simp
      from mE' have "m + 1 \<le> 2 ^ E" by simp
      then have "(m + 1) * n \<le> 2 ^ E * n" by (rule mult_le_mono1)
      then have "p + n \<le> n * 2 ^ E" by (simp add: p_def algebra_simps)
      with nk round_half_even_upper [OF k0, of p] have Mb: "M * 2 ^ k < n * 2 ^ E"
        by (simp add: M_def)
      have r: "times_index x n = (M, e + int k)"
        using big by (simp add: x times_index_def Let_def p_def k_def M_def)
      show ?thesis
      proof (cases "0 \<le> e + int k")
        case True
        then have kE: "E \<le> k" by (simp add: eE)
        then have "nat (e + int k) = k - E" by (simp add: eE)
        moreover have "M * 2 ^ (k - E) < n"
        proof -
          have "M * 2 ^ (k - E) * 2 ^ E = M * 2 ^ k"
            using kE by (simp add: power_add [symmetric] mult.assoc)
          with Mb have "M * 2 ^ (k - E) * 2 ^ E < n * 2 ^ E" by (simp only:)
          then show ?thesis by (simp only: mult_less_cancel2)
        qed
        ultimately show ?thesis using True by (simp add: r Math_floor_def)
      next
        case False
        then have kE: "k < E" by (simp add: eE)
        then have "nat (- (e + int k)) = E - k" by (simp add: eE)
        moreover have "M div 2 ^ (E - k) < n"
        proof -
          have "n * 2 ^ E = n * 2 ^ (E - k) * 2 ^ k"
            using kE by (simp add: power_add [symmetric] mult.assoc)
          with Mb have "M * 2 ^ k < n * 2 ^ (E - k) * 2 ^ k" by (simp only:)
          then have "M < n * 2 ^ (E - k)" by (simp only: mult_less_cancel2)
          then show ?thesis by (simp add: less_mult_imp_div_less)
        qed
        ultimately show ?thesis using False by (simp add: r Math_floor_def)
      qed
    qed
  qed
qed

lemma shuffle_loop_perm:
  assumes "\<forall>k. unit_double (rnd k)"
  shows "n \<le> length xs \<Longrightarrow> \<exists>ys. shuffle_loop rnd k n xs = Some ys \<and> mset ys = mset xs"
proof (induction n arbitrary: k xs)
  case 0
  then show ?case by simp
next
  case (Suc n)
  let ?r = "Math_floor (times_index (rnd k) (Suc n))"
  from assms have "unit_double (rnd k)" by blast
  then have "?r < Suc n" by (rule random_index_bound) simp
  with Suc.prems have rn: "?r < length xs" by simp
  from Suc.prems have n: "n < length xs" by simp
  let ?xs' = "xs[n := xs ! ?r, ?r := xs ! n]"
  have m: "mset ?xs' = mset xs"
    using n rn by (simp add: mset_swap)
  have "n \<le> length ?xs'" using n by simp
  from Suc.IH [OF this, of "Suc k"] obtain ys where
    "shuffle_loop rnd (Suc k) n ?xs' = Some ys" "mset ys = mset ?xs'" by blast
  with rn n m show ?case by (simp add: Let_def)
qed

text \<open>
  C10: for every array and every sequence of draws of Math.random (doubles from 0 up
  to, not including, 1), shuffleArray terminates with every index it uses inside the
  array (the model never ends with None), and the array it leaves has the length and
  the multiset of elements of the original.  The index drawn is the floor of the
  rounded double product, which stays below currentIndex.
\<close>

theorem shuffleArray_permutation:
  "(\<forall>k. unit_double (rnd k)) \<Longrightarrow>
   \<exists>ys. shuffleArray rnd array = Some ys \<and> mset ys = mset array \<and> length ys = length array"
  using shuffle_loop_perm [of rnd "length array" array 0]
  by (auto simp: shuffleArray_def dest: mset_eq_length)

theorem shuffleArray_permutation_witness:
  "(\<forall>k::nat. unit_double d03)
   \<and> shuffleArray (\<lambda>k. d03) [10, 20, 30 :: int] = Some [20, 30, 10]
   \<and> mset [20, 30, 10 :: int] = mset [10, 20, 30]
   \<and> unit_double d07 \<and> Math_floor (times_index d07 10) = 7"
proof -
  have h: "\<forall>k::nat. unit_double d03"
    by (simp add: unit_double_def d03_def)
  have b3: "bit_length 16212958658533785 - 53 = 1"
    by (simp add: bit_length_0 bit_length_pos)
  have r3: "round_half_even 16212958658533785 (Suc 0) = 8106479329266892"
    by (simp add: round_half_even_def Let_def)
  have b2: "bit_length 10808639105689190 - 53 = 1"
    by (simp add: bit_length_0 bit_length_pos)
  have r2: "round_half_even 10808639105689190 (Suc 0) = 5404319552844595"
    by (simp add: round_half_even_def Let_def)
  have i3: "Math_floor (times_index d03 (Suc (Suc (Suc 0)))) = 0"
    by (simp add: times_index_def d03_def Let_def b3 r3 Math_floor_def)
  have i2: "Math_floor (times_index d03 (Suc (Suc 0))) = 0"
    by (simp add: times_index_def d03_def Let_def b2 r2 Math_floor_def)
  have i1: "Math_floor (times_index d03 (Suc 0)) = 0"
    by (simp add: times_index_def d03_def Math_floor_def)
  have r: "shuffleArray (\<lambda>k. d03) [10, 20, 30 :: int] = Some [20, 30, 10]"
    by (simp add: shuffleArray_def numeral_3_eq_3 i3 i2 i1)
  have u7: "unit_double d07"
    by (simp add: unit_double_def d07_def)
  have b7: "bit_length 63050394783186940 - 53 = 3"
    by (simp add: bit_length_0 bit_length_pos)
  have r7: "round_half_even 63050394783186940 3 = 7881299347898368"
    by (simp add: round_half_even_def Let_def)
  have i7: "Math_floor (times_index d07 10) = 7"
    by (simp add: times_index_def d07_def Let_def b7 r7 Math_floor_def)
  from shuffleArray_permutation [OF h, of "[10, 20, 30 :: int]"] h r u7 i7 show ?thesis
    by simp
qed

section \<open>The import page: what a file retains\<close>

lemma bindE_Inr [simp]: "bindE (Inr x) f = f x"
  by (simp add: bindE_def)

lemma bindE_Inl [simp]: "bindE (Inl e) f = Inl e"
  by (simp add: bindE_def)

lemma shaped_friendE:
  assumes "shaped_friend f"
  obtains kvs n bs where "f = JObj kvs" "map_of kvs ''id'' = Some (JNum n)"
    "map_of kvs ''balance'' = Some (JArr bs)"
  using assms
  by (auto simp: shaped_friend_def is_object_def is_array_def is_number_def field_def
      split: json.splits option.splits)

lemma shaped_groupE:
  assumes "shaped_group g"
  obtains kvs n ms where "g = JObj kvs" "map_of kvs ''id'' = Some (JNum n)"
    "map_of kvs ''members'' = Some (JArr ms)"
  using assms
  by (auto simp: shaped_group_def is_object_def is_array_def is_number_def field_def
      split: json.splits option.splits)

lemma friends_loop_shaped:
  "list_all shaped_friend fs \<Longrightarrow>
   friends_loop fs acc =
     Inr (acc @ filter (\<lambda>f. field f ''registration_status'' = Some (JStr ''confirmed'')
                            \<and> elements (field f ''balance'') \<noteq> []) fs)"
proof (induction fs arbitrary: acc)
  case Nil
  then show ?case by simp
next
  case (Cons f fs)
  from Cons.prems have "shaped_friend f" by simp
  then obtain kvs n bs where f: "f = JObj kvs" and b: "map_of kvs ''balance'' = Some (JArr bs)"
    by (rule shaped_friendE)
  from Cons.prems have "list_all shaped_friend fs" by simp
  note IH = Cons.IH [OF this]
  show ?case
    by (simp add: f b IH field_def elements_def)
qed

lemma group_callback_shaped:
  "shaped_group g \<Longrightarrow>
   group_callback positive g =
     Inr (elements (field g ''members'') \<noteq> [] \<and> field g ''id'' \<noteq> Some (JNum 0))"
  by (erule shaped_groupE) (simp add: group_callback_def field_def elements_def)

lemma filter_loop_total:
  "list_all (\<lambda>x. cb x = Inr (P x)) xs \<Longrightarrow> filter_loop cb xs = Inr (filter P xs)"
  by (induction xs) simp_all

lemma select_all_shaped:
  "list_all (\<lambda>x. is_object x \<and> is_number (field x ''id'')) xs \<Longrightarrow> \<exists>r. select_all xs acc = Inr r"
proof (induction xs arbitrary: acc)
  case Nil
  then show ?case by simp
next
  case (Cons x xs)
  from Cons.prems obtain kvs n where x: "x = JObj kvs" and i: "map_of kvs ''id'' = Some (JNum n)"
    by (auto simp: is_object_def is_number_def field_def split: json.splits option.splits)
  from Cons.prems have "list_all (\<lambda>x. is_object x \<and> is_number (field x ''id'')) xs" by simp
  from Cons.IH [OF this] show ?case
    by (simp add: x i to_property_key_def)
qed

lemma parse_friends_shaped:
  "well_shaped j \<Longrightarrow>
   parse_friends j = Inr (filter (\<lambda>f. field f ''registration_status'' = Some (JStr ''confirmed'')
                            \<and> elements (field f ''balance'') \<noteq> []) (elements (field j ''friends'')))"
proof -
  assume w: "well_shaped j"
  then obtain kvs fs where j: "j = JObj kvs" and g: "map_of kvs ''friends'' = Some (JArr fs)"
    by (auto simp: well_shaped_def is_object_def is_array_def field_def
      split: json.splits option.splits)
  from w have "list_all shaped_friend (elements (field j ''friends''))"
    by (simp add: well_shaped_def)
  moreover have "elements (field j ''friends'') = fs"
    by (simp add: j g field_def elements_def)
  ultimately have "list_all shaped_friend fs" by simp
  from friends_loop_shaped [OF this, of "[]"] show ?thesis
    by (simp add: parse_friends_def j g field_def elements_def)
qed

lemma parse_groups_shaped:
  "well_shaped j \<Longrightarrow>
   parse_groups positive j = Inr (filter (\<lambda>g. elements (field g ''members'') \<noteq> []
                                      \<and> field g ''id'' \<noteq> Some (JNum 0)) (elements (field j ''groups'')))"
proof -
  assume w: "well_shaped j"
  then obtain kvs gs where j: "j = JObj kvs" and g: "map_of kvs ''groups'' = Some (JArr gs)"
    by (auto simp: well_shaped_def is_object_def is_array_def field_def
      split: json.splits option.splits)
  from w have "list_all shaped_group (elements (field j ''groups''))"
    by (simp add: well_shaped_def)
  moreover have "elements (field j ''groups'') = gs"
    by (simp add: j g field_def elements_def)
  ultimately have "list_all shaped_group gs" by simp
  then have "list_all (\<lambda>x. group_callback positive x =
       Inr (elements (field x ''members'') \<noteq> [] \<and> field x ''id'' \<noteq> Some (JNum 0))) gs"
    by (simp add: list_all_iff group_callback_shaped)
  from filter_loop_total [OF this] show ?thesis
    by (simp add: parse_groups_def j g field_def elements_def)
qed

lemma well_shaped_ids:
  assumes "well_shaped j"
  shows "list_all (\<lambda>x. is_object x \<and> is_number (field x ''id'')) (filter P (elements (field j ''friends'')))"
    and "list_all (\<lambda>x. is_object x \<and> is_number (field x ''id'')) (filter Q (elements (field j ''groups'')))"
  using assms by (auto simp: well_shaped_def list_all_iff shaped_friend_def shaped_group_def)

text \<open>The run of the handler in terms of the two parses and the two selections.\<close>

lemma handle_ok:
  assumes "parse_friends j = Inr us" and "select_all us [] = Inr s1"
    and "parse_groups positive j = Inr gs" and "select_all gs [] = Inr s2"
  shows "handleFileChange positive (Some (Some j)) st =
            st\<lparr>uploadedFile := Some (Some j), usersWithBalance := us, selectedUsers := s1,
               groups := gs, selectedGroups := s2\<rparr>"
  by (simp add: handleFileChange_def try_block_def JSON_parse_def assms Let_def)





lemma digits_small: "n < 10 \<Longrightarrow> digits n = [digit n]"
  by (simp add: digits.simps [of n])

lemma digits_large: "10 \<le> n \<Longrightarrow> digits n = digits (n div 10) @ [digit (n mod 10)]"
  by (simp add: digits.simps [of n])

text \<open>
  Outside the expected shape the selection itself can throw: an id that is an object
  with an own \<open>toString\<close> has no property key, so the friends are applied, the
  failure is reported and the groups are never read.
\<close>

lemma handleFileChange_unprintable_id:
  "groups (handleFileChange positive
      (Some (Some (JObj
         [(''friends'', JArr [JObj [(''id'', JObj [(''toString'', JNum 1)]),
                                    (''balance'', JArr [JNum 1]),
                                    (''registration_status'', JStr ''confirmed'')]]),
          (''groups'', JArr [JObj [(''id'', JNum 5), (''members'', JArr [JNum 1])]])])))
      init_page) = []
   \<and> toasts (handleFileChange positive
      (Some (Some (JObj
         [(''friends'', JArr [JObj [(''id'', JObj [(''toString'', JNum 1)]),
                                    (''balance'', JArr [JNum 1]),
                                    (''registration_status'', JStr ''confirmed'')]]),
          (''groups'', JArr [JObj [(''id'', JNum 5), (''members'', JArr [JNum 1])]])])))
      init_page) = [''Error importing file'']"
  by (simp add: handleFileChange_def try_block_def JSON_parse_def parse_friends_def
      init_page_def to_property_key_def Let_def)

text \<open>
  C4: for every parsed import file of the expected shape (friends and groups are
  objects with a number as id, balances and members are arrays), the friends retained
  are exactly those whose registration status is 'confirmed' and whose balance list is
  not empty, the groups retained are exactly those with at least one member and an id
  other than 0, each in the order of the file, and no failure is reported.
\<close>

theorem handleFileChange_retains:
  "well_shaped j \<Longrightarrow>
   usersWithBalance (handleFileChange positive (Some (Some j)) st)
     = filter (\<lambda>f. field f ''registration_status'' = Some (JStr ''confirmed'')
                   \<and> elements (field f ''balance'') \<noteq> []) (elements (field j ''friends''))
   \<and> groups (handleFileChange positive (Some (Some j)) st)
     = filter (\<lambda>g. elements (field g ''members'') \<noteq> [] \<and> field g ''id'' \<noteq> Some (JNum 0))
         (elements (field j ''groups''))
   \<and> toasts (handleFileChange positive (Some (Some j)) st) = toasts st"
proof -
  assume w: "well_shaped j"
  let ?us = "filter (\<lambda>f. field f ''registration_status'' = Some (JStr ''confirmed'')
                   \<and> elements (field f ''balance'') \<noteq> []) (elements (field j ''friends''))"
  let ?gs = "filter (\<lambda>g. elements (field g ''members'') \<noteq> [] \<and> field g ''id'' \<noteq> Some (JNum 0))
         (elements (field j ''groups''))"
  from select_all_shaped [OF well_shaped_ids(1) [OF w], of _ "[]"]
  obtain s1 where s1: "select_all ?us [] = Inr s1" by blast
  from select_all_shaped [OF well_shaped_ids(2) [OF w], of _ "[]"]
  obtain s2 where s2: "select_all ?gs [] = Inr s2" by blast
  from handle_ok [OF parse_friends_shaped [OF w] s1 parse_groups_shaped [OF w, of positive] s2,
      where st = st]
  show ?thesis by simp
qed

theorem handleFileChange_retains_witness:
  "well_shaped ex_file
   \<and> usersWithBalance (handleFileChange (\<lambda>v. False) (Some (Some ex_file)) init_page) = [ex_friend]
   \<and> groups (handleFileChange (\<lambda>v. False) (Some (Some ex_file)) init_page)
       = [JObj [(''id'', JNum 31), (''name'', JStr ''Flat''),
                (''members'', JArr [JObj [(''id'', JNum 7)], JObj [(''id'', JNum 8)]])]]
   \<and> toasts (handleFileChange (\<lambda>v. False) (Some (Some ex_file)) init_page) = []
   \<and> selectedUsers (handleFileChange (\<lambda>v. False) (Some (Some ex_file)) init_page)
       = [(''7'', True)]
   \<and> selectedGroups (handleFileChange (\<lambda>v. False) (Some (Some ex_file)) init_page)
       = [(''31'', True)]"
proof -
  have w: "well_shaped ex_file"
    by (simp add: well_shaped_def ex_file_def ex_friend_def shaped_friend_def shaped_group_def
        is_object_def is_array_def is_number_def field_def elements_def)
  have s: "selectedUsers (handleFileChange (\<lambda>v. False) (Some (Some ex_file)) init_page)
             = [(''7'', True)]
           \<and> selectedGroups (handleFileChange (\<lambda>v. False) (Some (Some ex_file)) init_page)
             = [(''31'', True)]"
    by (simp add: handleFileChange_def try_block_def JSON_parse_def parse_friends_def
        parse_groups_def group_callback_def ex_file_def ex_friend_def init_page_def
        to_property_key_def show_int_def digits_small digits_large digit_def Let_def)
  from handleFileChange_retains [OF w, of "\<lambda>v. False" init_page] w s show ?thesis
    by (simp add: ex_file_def ex_friend_def field_def elements_def init_page_def)
qed

section \<open>The import page: a file that fails to parse\<close>




section \<open>Importing twice\<close>

lemma set_row_present:
  "k \<in> bkey ` set tbl \<Longrightarrow>
   set_row k x tbl = map (\<lambda>b. if bkey b = k then b\<lparr>amount := x\<rparr> else b) tbl"
  by (cases k) (auto simp: set_row_def upsert_set_def bkey_def)

lemma set_row_absent:
  "k \<notin> bkey ` set tbl \<Longrightarrow>
   set_row k x tbl = tbl @ [\<lparr>userId = fst k, friendId = fst (snd k), currency = snd (snd k),
                             amount = x\<rparr>]"
  by (cases k) (auto simp: set_row_def upsert_set_def bkey_def image_iff)

lemma bkey_amount [simp]: "bkey (r\<lparr>amount := x\<rparr>) = bkey r"
  by (simp add: bkey_def)

lemma set_row_keys: "bkey ` set (set_row k x tbl) = insert k (bkey ` set tbl)"
proof (cases "k \<in> bkey ` set tbl")
  case True
  have "map bkey (map (\<lambda>b. if bkey b = k then b\<lparr>amount := x\<rparr> else b) tbl) = map bkey tbl"
    by (induction tbl) simp_all
  then have "set (map bkey (map (\<lambda>b. if bkey b = k then b\<lparr>amount := x\<rparr> else b) tbl))
               = set (map bkey tbl)"
    by (rule arg_cong)
  then have "bkey ` set (map (\<lambda>b. if bkey b = k then b\<lparr>amount := x\<rparr> else b) tbl) = bkey ` set tbl"
    by (simp only: set_map)
  with True show ?thesis by (auto simp only: set_row_present)
next
  case False
  then show ?thesis by (simp add: set_row_absent bkey_def)
qed

lemma set_row_rows:
  "r \<in> set (set_row k x tbl) \<Longrightarrow> (bkey r = k \<and> amount r = x) \<or> (bkey r \<noteq> k \<and> r \<in> set tbl)"
proof (cases "k \<in> bkey ` set tbl")
  case True
  assume "r \<in> set (set_row k x tbl)"
  then show ?thesis unfolding set_row_present [OF True] by (auto split: if_splits)
next
  case False
  assume "r \<in> set (set_row k x tbl)"
  then show ?thesis unfolding set_row_absent [OF False] using False by (auto simp: bkey_def)
qed

lemma apply_writes_snoc: "apply_writes (ws @ [(k, x)]) tbl = set_row k x (apply_writes ws tbl)"
  by (simp add: apply_writes_def)

lemma apply_writes_append: "apply_writes (ws @ vs) tbl = apply_writes vs (apply_writes ws tbl)"
  by (simp add: apply_writes_def)

lemma apply_writes_keys: "bkey ` set (apply_writes ws tbl) = fst ` set ws \<union> bkey ` set tbl"
proof (induction ws rule: rev_induct)
  case Nil
  then show ?case by (simp add: apply_writes_def)
next
  case (snoc w ws)
  then show ?case by (cases w) (auto simp only: apply_writes_snoc set_row_keys set_append
        image_Un list.set image_insert fst_conv image_empty)
qed

lemma apply_writes_last:
  "r \<in> set (apply_writes ws tbl) \<Longrightarrow> map_of (rev ws) (bkey r) = Some v \<Longrightarrow> amount r = v"
proof (induction ws arbitrary: r v rule: rev_induct)
  case Nil
  then show ?case by simp
next
  case (snoc w ws)
  obtain k x where w: "w = (k, x)" by (cases w)
  from snoc.prems(1) have "r \<in> set (set_row k x (apply_writes ws tbl))"
    unfolding w apply_writes_snoc .
  from set_row_rows [OF this] show ?case
  proof
    assume "bkey r = k \<and> amount r = x"
    with snoc.prems(2) show ?thesis by (simp add: w)
  next
    assume a: "bkey r \<noteq> k \<and> r \<in> set (apply_writes ws tbl)"
    with snoc.prems(2) have "map_of (rev ws) (bkey r) = Some v" by (simp add: w)
    with a snoc.IH show ?thesis by blast
  qed
qed

lemma bkey_overwrite [simp]: "bkey (overwrite ws r) = bkey r"
  by (simp add: overwrite_def split: option.splits)

lemma overwrite_snoc:
  "overwrite (ws @ [(k, x)]) r = (if bkey r = k then r\<lparr>amount := x\<rparr> else overwrite ws r)"
  by (simp add: overwrite_def)

lemma overwrite_amount: "(overwrite ws r)\<lparr>amount := x\<rparr> = r\<lparr>amount := x\<rparr>"
  by (simp add: overwrite_def split: option.splits)

lemma apply_writes_present:
  "fst ` set ws \<subseteq> bkey ` set tbl \<Longrightarrow> apply_writes ws tbl = map (overwrite ws) tbl"
proof (induction ws rule: rev_induct)
  case Nil
  then show ?case by (simp add: apply_writes_def overwrite_def)
next
  case (snoc w ws)
  obtain k x where w: "w = (k, x)" by (cases w)
  from snoc.prems have sub: "fst ` set ws \<subseteq> bkey ` set tbl" and k: "k \<in> bkey ` set tbl"
    by (auto simp: w)
  from k have "k \<in> bkey ` set (map (overwrite ws) tbl)"
    by (simp add: image_image)
  from set_row_present [OF this]
  have "apply_writes (ws @ [w]) tbl
          = map (\<lambda>b. if bkey b = k then b\<lparr>amount := x\<rparr> else b) (map (overwrite ws) tbl)"
    unfolding w apply_writes_snoc snoc.IH [OF sub] .
  also have "\<dots> = map (overwrite (ws @ [w])) tbl"
    unfolding w map_map by (rule map_cong) (simp_all add: overwrite_snoc overwrite_amount)
  finally show ?case .
qed

lemma apply_writes_idem: "apply_writes ws (apply_writes ws tbl) = apply_writes ws tbl"
proof -
  let ?t = "apply_writes ws tbl"
  have "fst ` set ws \<subseteq> bkey ` set ?t" by (simp add: apply_writes_keys)
  then have "apply_writes ws ?t = map (overwrite ws) ?t" by (rule apply_writes_present)
  also have "\<dots> = ?t"
  proof (rule map_idI)
    fix r assume r: "r \<in> set ?t"
    show "overwrite ws r = r"
    proof (cases "map_of (rev ws) (bkey r)")
      case None
      then show ?thesis by (simp add: overwrite_def)
    next
      case (Some v)
      from apply_writes_last [OF r Some] Some show ?thesis by (simp add: overwrite_def)
    qed
  qed
  finally show ?thesis .
qed

lemma import_balances_writes:
  "import_balances toAmount me fr bs tbl = apply_writes (friend_writes toAmount me fr bs) tbl"
  by (induction bs arbitrary: tbl)
     (auto simp: friend_writes_def apply_writes_def set_row_def)

lemma uid_of_stable: "\<exists>u \<in> set us. email u = e \<Longrightarrow> uid_of (us @ new) e = uid_of us e"
proof -
  assume "\<exists>u \<in> set us. email u = e"
  from find_present [of us "\<lambda>u. email u = e", OF this]
  obtain y where y: "find (\<lambda>u. email u = e) us = Some y" by blast
  from find_append_Some [OF y, of new] y show ?thesis by (simp add: uid_of_def)
qed

lemma ensure_user_known: "known d e \<Longrightarrow> ensure_user e n d = d"
proof -
  assume "known d e"
  then obtain y where "find (\<lambda>u. email u = e) (db_user d) = Some y"
    unfolding known_def using find_present [of "db_user d" "\<lambda>u. email u = e"] by blast
  then show ?thesis by (simp add: ensure_user_def find_or_create_user_def findUnique_def)
qed

lemma ensure_user_new:
  "\<not> known d e \<Longrightarrow>
   find_or_create_user e n d =
     (\<lparr>user_id = user_seq d, email = e, name = n\<rparr>,
      d\<lparr>db_user := db_user d @ [\<lparr>user_id = user_seq d, email = e, name = n\<rparr>],
        user_seq := user_seq d + 1\<rparr>)"
proof -
  assume "\<not> known d e"
  then have "find (\<lambda>u. email u = e) (db_user d) = None"
    by (auto simp: known_def find_None_iff)
  then show ?thesis
    by (simp add: find_or_create_user_def findUnique_def user_create_def Let_def)
qed

lemma ensure_user_unknown:
  "\<not> known d e \<Longrightarrow>
   ensure_user e n d =
     d\<lparr>db_user := db_user d @ [\<lparr>user_id = user_seq d, email = e, name = n\<rparr>],
       user_seq := user_seq d + 1\<rparr>"
  by (simp add: ensure_user_def ensure_user_new)

lemma ensure_user_users: "\<exists>new. db_user (ensure_user e n d) = db_user d @ new"
proof (cases "known d e")
  case True
  then show ?thesis by (simp add: ensure_user_known)
next
  case False
  then show ?thesis by (simp add: ensure_user_unknown)
qed

lemma ensure_user_makes_known: "known (ensure_user e n d) e"
proof (cases "known d e")
  case True
  then show ?thesis by (simp add: ensure_user_known)
next
  case False
  then show ?thesis by (simp add: ensure_user_unknown known_def)
qed

lemma known_mono: "known d e \<Longrightarrow> db_user d' = db_user d @ new \<Longrightarrow> known d' e"
  by (auto simp: known_def)

lemma foc_fst: "fst (find_or_create_user e n d) = u \<Longrightarrow>
  user_id u = uid_of (db_user (ensure_user e n d)) e"
proof (cases "known d e")
  case True
  assume u: "fst (find_or_create_user e n d) = u"
  from True obtain y where y: "find (\<lambda>u. email u = e) (db_user d) = Some y"
    unfolding known_def using find_present [of "db_user d" "\<lambda>u. email u = e"] by blast
  with u show ?thesis
    by (simp add: ensure_user_known [OF True] uid_of_def find_or_create_user_def findUnique_def)
next
  case False
  assume u: "fst (find_or_create_user e n d) = u"
  from False have "find (\<lambda>u. email u = e) (db_user d) = None"
    by (auto simp: known_def find_None_iff)
  from find_append_None [OF this, of "[\<lparr>user_id = user_seq d, email = e, name = n\<rparr>]"]
  have "uid_of (db_user (ensure_user e n d)) e = user_seq d"
    by (simp add: ensure_user_unknown [OF False] uid_of_def)
  moreover from u have "user_id u = user_seq d"
    by (auto simp: ensure_user_new [OF False])
  ultimately show ?thesis by simp
qed

lemma ensure_user_balance_update:
  "ensure_user e n (d\<lparr>db_balance := t\<rparr>) = (ensure_user e n d)\<lparr>db_balance := t\<rparr>"
proof (cases "known d e")
  case True
  then have "known (d\<lparr>db_balance := t\<rparr>) e" by (simp add: known_def)
  with True show ?thesis by (simp add: ensure_user_known)
next
  case False
  then have "\<not> known (d\<lparr>db_balance := t\<rparr>) e" by (simp add: known_def)
  with False show ?thesis by (simp add: ensure_user_unknown)
qed

lemma ensure_user_balance: "db_balance (ensure_user e n d) = db_balance d"
proof (cases "known d e")
  case True
  then show ?thesis by (simp add: ensure_user_known)
next
  case False
  then show ?thesis by (simp add: ensure_user_unknown)
qed

lemma import_friend_char:
  "import_friend toAmount me su d =
     (ensure_user (sw_email su) (sw_name su) d)\<lparr>db_balance :=
        apply_writes (friend_writes toAmount me
                        (uid_of (db_user (ensure_user (sw_email su) (sw_name su) d)) (sw_email su))
                        (sw_balance su))
          (db_balance d)\<rparr>"
proof -
  obtain u d1 where f: "find_or_create_user (sw_email su) (sw_name su) d = (u, d1)"
    by (cases "find_or_create_user (sw_email su) (sw_name su) d")
  then have d1: "d1 = ensure_user (sw_email su) (sw_name su) d" by (simp add: ensure_user_def)
  from f have "fst (find_or_create_user (sw_email su) (sw_name su) d) = u" by simp
  from foc_fst [OF this] have u: "user_id u = uid_of (db_user d1) (sw_email su)"
    unfolding d1 .
  have b: "db_balance d1 = db_balance d" unfolding d1 by (rule ensure_user_balance)
  show ?thesis
    unfolding import_friend_def f d1 [symmetric]
    by (simp add: import_balances_writes u b)
qed

lemma ensure_all_users: "\<exists>new. db_user (ensure_all sus d) = db_user d @ new"
proof (induction sus arbitrary: d)
  case Nil
  then show ?case by (simp add: ensure_all_def)
next
  case (Cons su sus)
  from ensure_user_users [of "sw_email su" "sw_name su" d]
  obtain a where a: "db_user (ensure_user (sw_email su) (sw_name su) d) = db_user d @ a" by blast
  from Cons.IH [of "ensure_user (sw_email su) (sw_name su) d"]
  obtain b where "db_user (ensure_all sus (ensure_user (sw_email su) (sw_name su) d))
                    = db_user (ensure_user (sw_email su) (sw_name su) d) @ b" by blast
  with a show ?case by (simp add: ensure_all_def)
qed

lemma ensure_all_balance_update:
  "ensure_all sus (d\<lparr>db_balance := t\<rparr>) = (ensure_all sus d)\<lparr>db_balance := t\<rparr>"
  by (induction sus arbitrary: d) (simp_all add: ensure_all_def ensure_user_balance_update)

lemma ensure_all_balance: "db_balance (ensure_all sus d) = db_balance d"
  by (induction sus arbitrary: d) (simp_all add: ensure_all_def ensure_user_balance)

lemma ensure_all_known: "\<forall>su \<in> set sus. known d (sw_email su) \<Longrightarrow> ensure_all sus d = d"
  by (induction sus) (simp_all add: ensure_all_def ensure_user_known)

lemma ensure_all_makes_known: "su \<in> set sus \<Longrightarrow> known (ensure_all sus d) (sw_email su)"
proof (induction sus arbitrary: d)
  case Nil
  then show ?case by simp
next
  case (Cons a sus)
  let ?d1 = "ensure_user (sw_email a) (sw_name a) d"
  have e: "ensure_all (a # sus) d = ensure_all sus ?d1" by (simp add: ensure_all_def)
  show ?case
  proof (cases "su \<in> set sus")
    case True
    from Cons.IH [OF True, of ?d1] show ?thesis unfolding e .
  next
    case False
    with Cons.prems have "su = a" by simp
    moreover have "known ?d1 (sw_email a)" by (rule ensure_user_makes_known)
    moreover from ensure_all_users [of sus ?d1] obtain new where
      "db_user (ensure_all sus ?d1) = db_user ?d1 @ new" by blast
    ultimately show ?thesis unfolding e using known_mono by blast
  qed
qed

lemma all_writes_stable:
  "\<forall>su \<in> set sus. \<exists>u \<in> set us. email u = sw_email su \<Longrightarrow>
   all_writes toAmount me (us @ new) sus = all_writes toAmount me us sus"
  unfolding all_writes_def
  by (rule arg_cong [where f = concat], rule map_cong) (simp_all add: uid_of_stable)

lemma importUserBalance_char:
  "importUserBalanceFromSplitWise toAmount me sus d =
     (ensure_all sus d)\<lparr>db_balance :=
        apply_writes (all_writes toAmount me (db_user (ensure_all sus d)) sus) (db_balance d)\<rparr>"
  unfolding importUserBalanceFromSplitWise_def
proof (induction sus arbitrary: d)
  case Nil
  then show ?case by (simp add: ensure_all_def all_writes_def apply_writes_def)
next
  case (Cons su sus)
  let ?dE = "ensure_user (sw_email su) (sw_name su) d"
  let ?dF = "ensure_all sus ?dE"
  let ?w = "friend_writes toAmount me (uid_of (db_user ?dE) (sw_email su)) (sw_balance su)"
  let ?t1 = "apply_writes ?w (db_balance d)"
  have F: "ensure_all (su # sus) d = ?dF" by (simp add: ensure_all_def)
  from ensure_all_users [of sus ?dE] obtain new where new: "db_user ?dF = db_user ?dE @ new"
    by blast
  have "known ?dE (sw_email su)" by (rule ensure_user_makes_known)
  then have "uid_of (db_user ?dF) (sw_email su) = uid_of (db_user ?dE) (sw_email su)"
    unfolding new known_def by (rule uid_of_stable)
  then have w: "all_writes toAmount me (db_user ?dF) (su # sus)
                  = ?w @ all_writes toAmount me (db_user ?dF) sus"
    by (simp add: all_writes_def)
  have "fold (import_friend toAmount me) (su # sus) d
          = fold (import_friend toAmount me) sus (?dE\<lparr>db_balance := ?t1\<rparr>)"
    by (simp add: import_friend_char)
  also have "\<dots> = (ensure_all sus (?dE\<lparr>db_balance := ?t1\<rparr>))\<lparr>db_balance :=
        apply_writes (all_writes toAmount me (db_user (ensure_all sus (?dE\<lparr>db_balance := ?t1\<rparr>))) sus)
          (db_balance (?dE\<lparr>db_balance := ?t1\<rparr>))\<rparr>"
    by (rule Cons.IH)
  also have "\<dots> = ?dF\<lparr>db_balance := apply_writes (all_writes toAmount me (db_user ?dF) (su # sus))
                                     (db_balance d)\<rparr>"
    by (simp add: ensure_all_balance_update w apply_writes_append)
  finally show ?case unfolding F .
qed

lemma extends_refl: "extends d d"
  by (simp add: extends_def)

lemma extends_trans: "extends d d' \<Longrightarrow> extends d' d'' \<Longrightarrow> extends d d''"
  unfolding extends_def by (elim conjE exE) simp

lemma fold_extends:
  assumes "\<And>x d. extends d (f x d)"
  shows "extends d (fold f xs d)"
proof (induction xs arbitrary: d)
  case Nil
  then show ?case by (simp add: extends_refl)
next
  case (Cons x xs)
  from assms [of d x] Cons.IH [of "f x d"] show ?case
    by (simp add: extends_trans)
qed

lemma fold_done:
  assumes own: "\<And>x d. Q x (f x d)"
    and mono: "\<And>x d d'. Q x d \<Longrightarrow> extends d d' \<Longrightarrow> Q x d'"
    and ext: "\<And>x d. extends d (f x d)"
  shows "x \<in> set xs \<Longrightarrow> Q x (fold f xs d)"
proof (induction xs arbitrary: d)
  case Nil
  then show ?case by simp
next
  case (Cons a xs)
  show ?case
  proof (cases "x \<in> set xs")
    case True
    from Cons.IH [OF True, of "f a d"] show ?thesis by simp
  next
    case False
    with Cons.prems have "x = a" by simp
    moreover have "Q a (f a d)" by (rule own)
    moreover have "extends (f a d) (fold f xs (f a d))" using ext by (rule fold_extends)
    ultimately show ?thesis using mono by simp
  qed
qed

lemma fold_id:
  assumes "\<And>x. x \<in> set xs \<Longrightarrow> Q x d" and "\<And>x. Q x d \<Longrightarrow> f x d = d"
  shows "fold f xs d = d"
  using assms by (induction xs) simp_all

lemma ensure_user_extends: "extends d (ensure_user e n d)"
proof (cases "known d e")
  case True
  then show ?thesis by (simp add: ensure_user_known extends_refl)
next
  case False
  then show ?thesis by (simp add: ensure_user_unknown extends_def)
qed

lemma add_member_char:
  "add_member gid m d =
     (let d1 = ensure_user (sw_email m) (sw_name m) d;
          uid = uid_of (db_user d1) (sw_email m)
      in if \<exists>r \<in> set (db_groupUser d1). gu_groupId r = gid \<and> gu_userId r = uid
         then d1
         else d1\<lparr>db_groupUser := db_groupUser d1 @ [\<lparr>gu_groupId = gid, gu_userId = uid\<rparr>]\<rparr>)"
proof -
  obtain u d1 where f: "find_or_create_user (sw_email m) (sw_name m) d = (u, d1)"
    by (cases "find_or_create_user (sw_email m) (sw_name m) d")
  then have d1: "d1 = ensure_user (sw_email m) (sw_name m) d" by (simp add: ensure_user_def)
  from f have "fst (find_or_create_user (sw_email m) (sw_name m) d) = u" by simp
  from foc_fst [OF this] have u: "user_id u = uid_of (db_user d1) (sw_email m)"
    unfolding d1 .
  show ?thesis
    unfolding add_member_def f d1 [symmetric] by (simp add: u Let_def)
qed

lemma add_member_extends: "extends d (add_member gid m d)"
proof -
  have "extends (ensure_user (sw_email m) (sw_name m) d) (add_member gid m d)"
    by (simp add: add_member_char Let_def extends_def)
  with ensure_user_extends show ?thesis by (rule extends_trans)
qed

lemma add_member_done: "member_done gid m (add_member gid m d)"
proof -
  have "known (ensure_user (sw_email m) (sw_name m) d) (sw_email m)"
    by (rule ensure_user_makes_known)
  then show ?thesis
    by (auto simp: add_member_char Let_def member_done_def known_def)
qed

lemma add_member_id: "member_done gid m d \<Longrightarrow> add_member gid m d = d"
  by (simp add: add_member_char member_done_def ensure_user_known)

lemma member_done_mono: "member_done gid m d \<Longrightarrow> extends d d' \<Longrightarrow> member_done gid m d'"
proof -
  assume m: "member_done gid m d" and e: "extends d d'"
  from e obtain a c where a: "db_user d' = db_user d @ a" and c: "db_groupUser d' = db_groupUser d @ c"
    unfolding extends_def by blast
  from m have k: "known d (sw_email m)" by (simp add: member_done_def)
  then have "uid_of (db_user d') (sw_email m) = uid_of (db_user d) (sw_email m)"
    unfolding a known_def by (rule uid_of_stable)
  with m k a c show ?thesis
    by (auto simp: member_done_def known_def)
qed

lemma gid_of_stable: "gknown d x \<Longrightarrow> db_group d' = db_group d @ new \<Longrightarrow>
  gid_of (db_group d') x = gid_of (db_group d) x"
proof -
  assume "gknown d x" and n: "db_group d' = db_group d @ new"
  then obtain y where y: "find (\<lambda>g. splitwiseGroupId g = Some x) (db_group d) = Some y"
    unfolding gknown_def using find_present [of "db_group d" "\<lambda>g. splitwiseGroupId g = Some x"]
    by blast
  from find_append_Some [OF y, of new] y n show ?thesis by (simp add: gid_of_def)
qed

lemma ensure_group_known: "gknown d (swg_id g) \<Longrightarrow> ensure_group g d = d"
proof -
  assume "gknown d (swg_id g)"
  then obtain y where "find (\<lambda>x. splitwiseGroupId x = Some (swg_id g)) (db_group d) = Some y"
    unfolding gknown_def
    using find_present [of "db_group d" "\<lambda>x. splitwiseGroupId x = Some (swg_id g)"] by blast
  then show ?thesis by (simp add: ensure_group_def find_or_create_group_def findUnique_def)
qed

lemma find_or_create_group_new:
  "\<not> gknown d (swg_id g) \<Longrightarrow>
   find_or_create_group g d =
     (\<lparr>g_id = group_seq d, g_name = swg_name g, splitwiseGroupId = Some (swg_id g)\<rparr>,
      d\<lparr>db_group := db_group d @
           [\<lparr>g_id = group_seq d, g_name = swg_name g, splitwiseGroupId = Some (swg_id g)\<rparr>],
        group_seq := group_seq d + 1\<rparr>)"
proof -
  assume "\<not> gknown d (swg_id g)"
  then have "find (\<lambda>x. splitwiseGroupId x = Some (swg_id g)) (db_group d) = None"
    by (auto simp: gknown_def find_None_iff)
  then show ?thesis
    by (simp add: find_or_create_group_def findUnique_def Let_def)
qed

lemma ensure_group_unknown:
  "\<not> gknown d (swg_id g) \<Longrightarrow>
   ensure_group g d =
     d\<lparr>db_group := db_group d @
           [\<lparr>g_id = group_seq d, g_name = swg_name g, splitwiseGroupId = Some (swg_id g)\<rparr>],
       group_seq := group_seq d + 1\<rparr>"
  by (simp add: ensure_group_def find_or_create_group_new)

lemma ensure_group_extends: "extends d (ensure_group g d)"
proof (cases "gknown d (swg_id g)")
  case True
  then show ?thesis by (simp add: ensure_group_known extends_refl)
next
  case False
  then show ?thesis by (simp add: ensure_group_unknown extends_def)
qed

lemma ensure_group_makes_known: "gknown (ensure_group g d) (swg_id g)"
proof (cases "gknown d (swg_id g)")
  case True
  then show ?thesis by (simp add: ensure_group_known)
next
  case False
  then show ?thesis by (simp add: ensure_group_unknown gknown_def)
qed

lemma focg_fst:
  "g_id (fst (find_or_create_group g d)) = gid_of (db_group (ensure_group g d)) (swg_id g)"
proof (cases "gknown d (swg_id g)")
  case True
  then obtain y where y: "find (\<lambda>x. splitwiseGroupId x = Some (swg_id g)) (db_group d) = Some y"
    unfolding gknown_def
    using find_present [of "db_group d" "\<lambda>x. splitwiseGroupId x = Some (swg_id g)"] by blast
  then show ?thesis
    by (simp add: ensure_group_known [OF True] gid_of_def find_or_create_group_def findUnique_def)
next
  case False
  then have "find (\<lambda>x. splitwiseGroupId x = Some (swg_id g)) (db_group d) = None"
    by (auto simp: gknown_def find_None_iff)
  from find_append_None [OF this,
      of "[\<lparr>g_id = group_seq d, g_name = swg_name g, splitwiseGroupId = Some (swg_id g)\<rparr>]"]
  have "gid_of (db_group (ensure_group g d)) (swg_id g) = group_seq d"
    by (simp add: ensure_group_unknown [OF False] gid_of_def)
  then show ?thesis by (simp add: find_or_create_group_new [OF False])
qed

lemma import_group_char:
  "import_group g d =
     fold (add_member (gid_of (db_group (ensure_group g d)) (swg_id g))) (swg_members g)
       (ensure_group g d)"
proof -
  obtain x d1 where f: "find_or_create_group g d = (x, d1)"
    by (cases "find_or_create_group g d")
  with focg_fst [of g d] show ?thesis
    by (simp add: import_group_def ensure_group_def)
qed

lemma gknown_mono: "gknown d x \<Longrightarrow> extends d d' \<Longrightarrow> gknown d' x"
  unfolding gknown_def extends_def by auto

lemma group_done_mono: "group_done g d \<Longrightarrow> extends d d' \<Longrightarrow> group_done g d'"
proof -
  assume gd: "group_done g d" and e: "extends d d'"
  from e obtain b where b: "db_group d' = db_group d @ b" unfolding extends_def by blast
  from gd have k: "gknown d (swg_id g)" by (simp add: group_done_def)
  from gid_of_stable [OF k b] have s: "gid_of (db_group d') (swg_id g) = gid_of (db_group d) (swg_id g)" .
  from gd e k show ?thesis
    unfolding group_done_def s using member_done_mono gknown_mono by blast
qed

lemma import_group_extends: "extends d (import_group g d)"
proof -
  have "extends (ensure_group g d) (import_group g d)"
    unfolding import_group_char using add_member_extends by (rule fold_extends)
  with ensure_group_extends show ?thesis by (rule extends_trans)
qed

lemma import_group_done: "group_done g (import_group g d)"
proof -
  let ?d1 = "ensure_group g d"
  let ?gid = "gid_of (db_group ?d1) (swg_id g)"
  have k: "gknown ?d1 (swg_id g)" by (rule ensure_group_makes_known)
  have e: "extends ?d1 (import_group g d)"
    unfolding import_group_char using add_member_extends by (rule fold_extends)
  then obtain b where b: "db_group (import_group g d) = db_group ?d1 @ b"
    unfolding extends_def by blast
  from gid_of_stable [OF k b]
  have s: "gid_of (db_group (import_group g d)) (swg_id g) = ?gid" .
  have "member_done ?gid m (import_group g d)" if "m \<in> set (swg_members g)" for m
    unfolding import_group_char
    using add_member_done member_done_mono add_member_extends that
    by (rule fold_done [where Q = "member_done ?gid"])
  with gknown_mono [OF k e] show ?thesis
    unfolding group_done_def s by blast
qed

lemma import_group_id: "group_done g d \<Longrightarrow> import_group g d = d"
proof -
  assume gd: "group_done g d"
  then have k: "gknown d (swg_id g)" by (simp add: group_done_def)
  have e: "ensure_group g d = d" using k by (rule ensure_group_known)
  show ?thesis
    unfolding import_group_char e
  proof (rule fold_id [where Q = "member_done (gid_of (db_group d) (swg_id g))"])
    fix m assume "m \<in> set (swg_members g)"
    with gd show "member_done (gid_of (db_group d) (swg_id g)) m d"
      by (simp add: group_done_def)
  next
    fix m assume "member_done (gid_of (db_group d) (swg_id g)) m d"
    then show "add_member (gid_of (db_group d) (swg_id g)) m d = d" by (rule add_member_id)
  qed
qed

lemma importGroup_extends: "extends d (importGroupFromSplitwise me gs d)"
  unfolding importGroupFromSplitwise_def using import_group_extends by (rule fold_extends)

lemma importGroup_idem:
  "importGroupFromSplitwise me gs (importGroupFromSplitwise me gs d)
     = importGroupFromSplitwise me gs d"
proof -
  let ?d2 = "importGroupFromSplitwise me gs d"
  have "group_done g ?d2" if "g \<in> set gs" for g
    unfolding importGroupFromSplitwise_def
    using import_group_done group_done_mono import_group_extends that
    by (rule fold_done [where Q = group_done])
  then show ?thesis
    unfolding importGroupFromSplitwise_def [of me gs ?d2]
    using import_group_id by (rule fold_id [where Q = group_done])
qed

lemma importUserBalance_after:
  assumes e: "extends (importUserBalanceFromSplitWise toAmount me sus d) d2"
  shows "importUserBalanceFromSplitWise toAmount me sus d2 = d2"
proof -
  let ?dU = "ensure_all sus d"
  let ?W = "all_writes toAmount me (db_user ?dU) sus"
  let ?d1 = "importUserBalanceFromSplitWise toAmount me sus d"
  have u1: "db_user ?d1 = db_user ?dU" and b1: "db_balance ?d1 = apply_writes ?W (db_balance d)"
    by (simp_all add: importUserBalance_char)
  from e obtain a where a: "db_user d2 = db_user ?dU @ a" and b2: "db_balance d2 = db_balance ?d1"
    unfolding extends_def u1 by blast
  have k: "\<forall>su \<in> set sus. \<exists>u \<in> set (db_user ?dU). email u = sw_email su"
    using ensure_all_makes_known [of _ sus d] by (simp add: known_def)
  then have "\<forall>su \<in> set sus. known d2 (sw_email su)"
    unfolding known_def a by auto
  then have E: "ensure_all sus d2 = d2" by (rule ensure_all_known)
  have W: "all_writes toAmount me (db_user d2) sus = ?W"
    unfolding a using k by (rule all_writes_stable)
  have "importUserBalanceFromSplitWise toAmount me sus d2
          = d2\<lparr>db_balance := apply_writes ?W (apply_writes ?W (db_balance d))\<rparr>"
    unfolding importUserBalance_char [of toAmount me sus d2] E W b2 b1 ..
  also have "\<dots> = d2\<lparr>db_balance := db_balance d2\<rparr>"
    unfolding apply_writes_idem b2 b1 ..
  finally show ?thesis by simp
qed

text \<open>
  C3: for every acting user and every external input, importUsersFromSplitWise succeeds
  and running it a second time with the same input leaves the store exactly as the
  first run left it: no user, group, membership or balance row is added or changed
  (users are matched by email, groups by external id).
\<close>

theorem importUsersFromSplitWise_idempotent:
  "snd (importUsersFromSplitWise toAmount su us gs
          (snd (importUsersFromSplitWise toAmount su us gs d)))
     = snd (importUsersFromSplitWise toAmount su us gs d)
   \<and> fst (importUsersFromSplitWise toAmount su us gs d) = Inr ()"
proof -
  let ?d1 = "importUserBalanceFromSplitWise toAmount (su_id su) us d"
  let ?d2 = "importGroupFromSplitwise (su_id su) gs ?d1"
  have "extends ?d1 ?d2" by (rule importGroup_extends)
  then have "importUserBalanceFromSplitWise toAmount (su_id su) us ?d2 = ?d2"
    by (rule importUserBalance_after)
  then show ?thesis
    by (simp add: importUsersFromSplitWise_def Let_def importGroup_idem)
qed

theorem importUsersFromSplitWise_idempotent_witness:
  "snd (importUsersFromSplitWise ex_amount (mk_session 7) ex_friends ex_groups ex_users)
     = ex_imported
   \<and> snd (importUsersFromSplitWise ex_amount (mk_session 7) ex_friends ex_groups ex_imported)
     = ex_imported"
proof -
  have r: "snd (importUsersFromSplitWise ex_amount (mk_session 7) ex_friends ex_groups ex_users)
             = ex_imported"
    by (simp add: importUsersFromSplitWise_def importUserBalanceFromSplitWise_def
        importGroupFromSplitwise_def import_friend_def import_group_def add_member_def
        find_or_create_user_def find_or_create_group_def findUnique_def user_create_def
        upsert_set_def ex_amount_def ex_friends_def ex_groups_def ex_users_def ex_imported_def
        mk_db_def mk_session_def mk_balance_def Let_def)
  from importUsersFromSplitWise_idempotent
         [of ex_amount "mk_session 7" ex_friends ex_groups ex_users]
  show ?thesis unfolding r by simp
qed

end
